theory Spec2Isabelle
  imports Main "HOL-Library.Word"
begin

unbundle bit_operations_syntax

section \<open>The quantized matrix-vector kernel of matmul_kernel.cpp\<close>

subsection \<open>Machine types\<close>

text \<open>
  The kernel works on \<^verbatim>\<open>int8_t\<close> operands, an \<^verbatim>\<open>int32_t\<close> accumulator,
  \<^verbatim>\<open>uint64_t\<close> dimensions and indices, and \<^verbatim>\<open>float32_t\<close> scales and sums.
  On the host \<^verbatim>\<open>float32_t\<close> is \<^verbatim>\<open>uint32_t\<close> (the bits of the float); on the guest
  it is \<^verbatim>\<open>float\<close>, modelled by its bits as well.
\<close>

type_synonym int8_t = "8 word"
type_synonym int32_t = "32 word"
type_synonym uint64_t = "64 word"
type_synonym float32_t = "32 word"

text \<open>
  The three scalar primitives. Their bodies are not part of the kernel file: the guest
  versions are single RISC-V instructions in inline assembly, the host versions call
  \<^verbatim>\<open>cartesi::i_sfloat32\<close> of \<^verbatim>\<open>soft-float.h\<close>. The kernel is therefore modelled
  over an arbitrary triple of primitives.
\<close>

record fpu =
  f32_mul :: "float32_t \<Rightarrow> float32_t \<Rightarrow> float32_t"
  f32_fma :: "float32_t \<Rightarrow> float32_t \<Rightarrow> float32_t \<Rightarrow> float32_t"
  i32_to_f32 :: "int32_t \<Rightarrow> float32_t"

text \<open>The two build variants selected by \<^verbatim>\<open>#ifdef __riscv\<close>.\<close>

datatype realization = Guest | Host

subsection \<open>Memory, effects and faults\<close>

text \<open>
  What the kernel does to the outside world: a store to \<^verbatim>\<open>xout[i]\<close>, the guest's store
  to the HTIF address, and (host only) the normal return to the caller.
\<close>

datatype event =
    Store_xout uint64_t float32_t
  | Store_htif uint64_t uint64_t
  | Return

text \<open>
  The five caller-owned buffers, and the trace of effects so far. The buffers are
  assumed not to overlap.
\<close>

record machine =
  xout_buf :: "float32_t list"
  xq_buf :: "int8_t list"
  xs_buf :: "float32_t list"
  wq_buf :: "int8_t list"
  ws_buf :: "float32_t list"
  trace :: "event list"

text \<open>
  Undefined behaviour of the C++ program is a fault value of the model: an access
  outside a buffer, and the division \<^verbatim>\<open>j / gs\<close> by zero.
\<close>

datatype fault = Out_of_bounds | Division_by_zero

definition load :: "'a list \<Rightarrow> uint64_t \<Rightarrow> fault + 'a" where
  "load buf i = (if unat i < length buf then Inr (buf ! unat i) else Inl Out_of_bounds)"

definition store_xout :: "machine \<Rightarrow> uint64_t \<Rightarrow> float32_t \<Rightarrow> fault + machine" where
  "store_xout m i v =
     (if unat i < length (xout_buf m)
      then Inr (m\<lparr>xout_buf := (xout_buf m)[unat i := v],
                 trace := trace m @ [Store_xout i v]\<rparr>)
      else Inl Out_of_bounds)"

subsection \<open>The three loops of kernel_entry\<close>

text \<open>
  The innermost loop,
  \<^verbatim>\<open>for (uint64_t k = j; k < gs+j; k++) ival += (int32_t)(xq[k]) * (int32_t)(wq[in + k]);\<close>
  with \<open>bound\<close> standing for \<^verbatim>\<open>gs+j\<close>. The casts sign-extend; the accumulation is in
  32 bits and wraps (the build uses \<^verbatim>\<open>-fno-strict-overflow\<close>).
\<close>

function dot_loop ::
  "int8_t list \<Rightarrow> int8_t list \<Rightarrow> uint64_t \<Rightarrow> uint64_t \<Rightarrow> uint64_t \<Rightarrow> int32_t \<Rightarrow> fault + int32_t"
where
  "dot_loop xq wq in' bound k ival =
     (if k < bound then
        (case load xq k of
           Inl e \<Rightarrow> Inl e
         | Inr x \<Rightarrow>
            (case load wq (in' + k) of
               Inl e \<Rightarrow> Inl e
             | Inr w \<Rightarrow> dot_loop xq wq in' bound (k + 1) (ival + scast x * scast w)))
      else Inr ival)"
  by pat_completeness auto
termination
proof (relation "measure (\<lambda>(xq, wq, in', bound, k, ival). unat bound - unat k)")
  show "wf (measure (\<lambda>(xq, wq, in', bound, k, ival). unat bound - unat k))"
    by simp
next
  fix xq wq :: "int8_t list" and in' bound k :: uint64_t and ival :: int32_t
    and x w :: int8_t
  assume "k < bound"
  then have "unat k < unat bound"
    by (simp add: word_less_nat_alt)
  moreover from \<open>k < bound\<close> have "unat (k + 1) = unat k + 1"
    by unat_arith
  ultimately show
    "((xq, wq, in', bound, k + 1, ival + scast x * scast w), (xq, wq, in', bound, k, ival))
       \<in> measure (\<lambda>(xq, wq, in', bound, k, ival). unat bound - unat k)"
    by simp
qed

text \<open>
  One group of one row: the integer dot product, then
  \<^verbatim>\<open>sum = f32_fma(i32_to_f32(ival), f32_mul(xs[j / gs], ws[(in + j) / gs]), sum);\<close>
\<close>

definition group_step ::
  "fpu \<Rightarrow> machine \<Rightarrow> uint64_t \<Rightarrow> uint64_t \<Rightarrow> uint64_t \<Rightarrow> float32_t \<Rightarrow> fault + float32_t"
where
  "group_step fp m gs in' j acc =
     (case dot_loop (xq_buf m) (wq_buf m) in' (gs + j) j 0 of
        Inl e \<Rightarrow> Inl e
      | Inr ival \<Rightarrow>
         if gs = 0 then Inl Division_by_zero
         else
           (case load (xs_buf m) (j div gs) of
              Inl e \<Rightarrow> Inl e
            | Inr a \<Rightarrow>
               (case load (ws_buf m) ((in' + j) div gs) of
                  Inl e \<Rightarrow> Inl e
                | Inr b \<Rightarrow>
                   Inr (f32_fma fp (i32_to_f32 fp ival) (f32_mul fp a b) acc))))"

text \<open>
  The group loop, \<^verbatim>\<open>for (uint64_t j = 0; j <= n - gs; j += gs)\<close>. Both \<^verbatim>\<open>n - gs\<close> and
  \<^verbatim>\<open>j += gs\<close> are unsigned 64-bit and wrap, so the loop need not end: the result
  \<open>None\<close> means that it runs forever.
\<close>

partial_function (option) group_loop ::
  "fpu \<Rightarrow> machine \<Rightarrow> uint64_t \<Rightarrow> uint64_t \<Rightarrow> uint64_t \<Rightarrow> uint64_t \<Rightarrow> float32_t
     \<Rightarrow> (fault + float32_t) option"
where
  "group_loop fp m n gs in' j acc =
     (if j \<le> n - gs then
        (case group_step fp m gs in' j acc of
           Inl e \<Rightarrow> Some (Inl e)
         | Inr acc' \<Rightarrow> group_loop fp m n gs in' (j + gs) acc')
      else Some (Inr acc))"

text \<open>
  The body of the row loop: \<^verbatim>\<open>in = i * n\<close>, \<^verbatim>\<open>sum = 0\<close>, the group loop, and the store
  \<^verbatim>\<open>xout[i] = sum\<close>.
\<close>

definition row_body ::
  "fpu \<Rightarrow> uint64_t \<Rightarrow> uint64_t \<Rightarrow> uint64_t \<Rightarrow> machine \<Rightarrow> (fault + machine) option"
where
  "row_body fp n gs i m =
     (case group_loop fp m n gs (i * n) 0 0 of
        None \<Rightarrow> None
      | Some (Inl e) \<Rightarrow> Some (Inl e)
      | Some (Inr acc) \<Rightarrow> Some (store_xout m i acc))"

text \<open>The row loop as written, \<^verbatim>\<open>for (uint64_t i = 0; i < d; i++)\<close>.\<close>

function row_loop ::
  "fpu \<Rightarrow> uint64_t \<Rightarrow> uint64_t \<Rightarrow> uint64_t \<Rightarrow> uint64_t \<Rightarrow> machine \<Rightarrow> (fault + machine) option"
where
  "row_loop fp n d gs i m =
     (if i < d then
        (case row_body fp n gs i m of
           None \<Rightarrow> None
         | Some (Inl e) \<Rightarrow> Some (Inl e)
         | Some (Inr m') \<Rightarrow> row_loop fp n d gs (i + 1) m')
      else Some (Inr m))"
  by pat_completeness auto
termination
proof (relation "measure (\<lambda>(fp, n, d, gs, i, m). unat d - unat i)")
  show "wf (measure (\<lambda>(fp, n, d, gs, i, m). unat d - unat i))"
    by simp
next
  fix fp :: fpu and n d gs i :: uint64_t and m m' :: machine
  assume "i < d"
  then have "unat i < unat d"
    by (simp add: word_less_nat_alt)
  moreover from \<open>i < d\<close> have "unat (i + 1) = unat i + 1"
    by unat_arith
  ultimately show
    "((fp, n, d, gs, i + 1, m'), (fp, n, d, gs, i, m))
       \<in> measure (\<lambda>(fp, n, d, gs, i, m). unat d - unat i)"
    by simp
qed

subsection \<open>The completion signal and the entry point\<close>

definition HTIF_START :: uint64_t where
  "HTIF_START = 0x40008000"

text \<open>
  \<^verbatim>\<open>halt()\<close>: on the guest the store \<^verbatim>\<open>*(uint64_t* )(HTIF_START) = 1\<close>, on the host an
  empty function.
\<close>

fun halt :: "realization \<Rightarrow> machine \<Rightarrow> machine" where
  "halt Guest m = m\<lparr>trace := trace m @ [Store_htif HTIF_START 1]\<rparr>"
| "halt Host m = m"

text \<open>
  After \<^verbatim>\<open>halt()\<close> the host function returns to its caller. The guest function is
  \<^verbatim>\<open>naked\<close> and has no return: the supervisor stops the machine at the HTIF store.
\<close>

fun leave :: "realization \<Rightarrow> machine \<Rightarrow> machine" where
  "leave Guest m = m"
| "leave Host m = m\<lparr>trace := trace m @ [Return]\<rparr>"

definition kernel_entry ::
  "realization \<Rightarrow> fpu \<Rightarrow> machine \<Rightarrow> uint64_t \<Rightarrow> uint64_t \<Rightarrow> uint64_t \<Rightarrow> (fault + machine) option"
where
  "kernel_entry r fp m n d gs =
     (case row_loop fp n d gs 0 m of
        None \<Rightarrow> None
      | Some (Inl e) \<Rightarrow> Some (Inl e)
      | Some (Inr m') \<Rightarrow> Some (Inr (leave r (halt r m'))))"

subsection \<open>Row-parallel execution\<close>

text \<open>
  The row loop carries \<^verbatim>\<open>#pragma omp parallel for\<close>: in a build with OpenMP the rows are
  distributed over threads. A row body reads only \<^verbatim>\<open>xq\<close>, \<^verbatim>\<open>xs\<close>, \<^verbatim>\<open>wq\<close>, \<^verbatim>\<open>ws\<close> and
  ends in its single store to \<^verbatim>\<open>xout[i]\<close>, so a parallel execution is determined by the
  order in which the rows take effect: the schedule \<open>sched\<close>. The completion signal
  follows the join at the end of the parallel loop.
\<close>

fun rows_in_order ::
  "fpu \<Rightarrow> uint64_t \<Rightarrow> uint64_t \<Rightarrow> uint64_t list \<Rightarrow> machine \<Rightarrow> (fault + machine) option"
where
  "rows_in_order fp n gs [] m = Some (Inr m)"
| "rows_in_order fp n gs (i # sched) m =
     (case row_body fp n gs i m of
        None \<Rightarrow> None
      | Some (Inl e) \<Rightarrow> Some (Inl e)
      | Some (Inr m') \<Rightarrow> rows_in_order fp n gs sched m')"

definition kernel_entry_omp ::
  "uint64_t list \<Rightarrow> realization \<Rightarrow> fpu \<Rightarrow> machine \<Rightarrow> uint64_t \<Rightarrow> uint64_t \<Rightarrow> uint64_t
     \<Rightarrow> (fault + machine) option"
where
  "kernel_entry_omp sched r fp m n d gs =
     (case rows_in_order fp n gs sched m of
        None \<Rightarrow> None
      | Some (Inl e) \<Rightarrow> Some (Inl e)
      | Some (Inr m') \<Rightarrow> Some (Inr (leave r (halt r m'))))"

text \<open>A schedule of the rows \<open>0 \<le> i < d\<close> runs every row exactly once.\<close>

definition schedule_of :: "uint64_t \<Rightarrow> uint64_t list \<Rightarrow> bool" where
  "schedule_of d sched \<longleftrightarrow> distinct sched \<and> set sched = {i. i < d}"



subsection \<open>What a row is specified to compute\<close>

text \<open>
  The exact integer dot product of the group at offset \<open>j\<close> of the row with base offset
  \<open>base\<close>: the sum of \<open>xq[k] * wq[base + k]\<close> for \<open>k\<close> from \<open>j\<close> to \<open>j + gs - 1\<close>, over the
  mathematical integers.
\<close>

definition group_dot :: "int8_t list \<Rightarrow> int8_t list \<Rightarrow> nat \<Rightarrow> nat \<Rightarrow> nat \<Rightarrow> int" where
  "group_dot xq wq base j gs = (\<Sum>k = j..<j + gs. sint (xq ! k) * sint (wq ! (base + k)))"

text \<open>
  Folding one group at offset \<open>j\<close> of row \<open>i\<close> into the running sum: the integer dot
  product is converted, the two scales are multiplied, and the fused multiply-add adds
  their product to the sum.
\<close>

definition fold_group :: "fpu \<Rightarrow> machine \<Rightarrow> nat \<Rightarrow> nat \<Rightarrow> nat \<Rightarrow> float32_t \<Rightarrow> nat \<Rightarrow> float32_t" where
  "fold_group fp m n gs i acc j =
     f32_fma fp
       (i32_to_f32 fp (word_of_int (group_dot (xq_buf m) (wq_buf m) (i * n) j gs)))
       (f32_mul fp (xs_buf m ! (j div gs)) (ws_buf m ! ((i * n + j) div gs)))
       acc"

text \<open>
  The left fold of row \<open>i\<close> over the offsets \<open>0, gs, 2 * gs, \<dots>\<close> of its whole groups, in
  increasing order, starting from \<open>+0.0\<close>.
\<close>

definition group_offsets :: "nat \<Rightarrow> nat \<Rightarrow> nat list" where
  "group_offsets n gs = map (\<lambda>g. g * gs) [0..<n div gs]"

definition row_fold :: "fpu \<Rightarrow> machine \<Rightarrow> nat \<Rightarrow> nat \<Rightarrow> nat \<Rightarrow> float32_t" where
  "row_fold fp m n gs i = foldl (fold_group fp m n gs i) 0 (group_offsets n gs)"

text \<open>
  The output buffer and the stores of a complete run: row \<open>i\<close> of the first \<open>d\<close> entries
  holds the fold of row \<open>i\<close>, the rest of the buffer is as before.
\<close>

definition xout_after :: "fpu \<Rightarrow> machine \<Rightarrow> nat \<Rightarrow> nat \<Rightarrow> nat \<Rightarrow> float32_t list" where
  "xout_after fp m n d gs = map (row_fold fp m n gs) [0..<d] @ drop d (xout_buf m)"

definition row_stores :: "fpu \<Rightarrow> machine \<Rightarrow> nat \<Rightarrow> nat \<Rightarrow> nat \<Rightarrow> event list" where
  "row_stores fp m n d gs = map (\<lambda>i. Store_xout (of_nat i) (row_fold fp m n gs i)) [0..<d]"

text \<open>
  The buffers are at least as long as the data model says: \<open>d\<close> outputs, \<open>n\<close> inputs with
  one scale for each whole group, \<open>d * n\<close> weights (addressable with 64 bits) with one scale
  for each whole group of the flat matrix.
\<close>

definition buffers_fit :: "machine \<Rightarrow> uint64_t \<Rightarrow> uint64_t \<Rightarrow> uint64_t \<Rightarrow> bool" where
  "buffers_fit m n d gs \<longleftrightarrow>
     unat d \<le> length (xout_buf m) \<and>
     unat n \<le> length (xq_buf m) \<and>
     unat n div unat gs \<le> length (xs_buf m) \<and>
     unat d * unat n \<le> length (wq_buf m) \<and>
     unat d * unat n < 2 ^ 64 \<and>
     (unat d * unat n) div unat gs \<le> length (ws_buf m)"

definition fits_int32 :: "int \<Rightarrow> bool" where
  "fits_int32 v \<longleftrightarrow> - (2 ^ 31) \<le> v \<and> v < 2 ^ 31"

subsection \<open>The scalar primitives under round-to-nearest-even\<close>

text \<open>
  Modelled from the spec: the bodies of \<^verbatim>\<open>cartesi::i_sfloat32::mul\<close>, \<^verbatim>\<open>fma\<close> and
  \<^verbatim>\<open>cvt_i_f\<close> (in \<^verbatim>\<open>soft-float.h\<close>, called with \<^verbatim>\<open>FRM_RNE\<close>) and of the RISC-V instructions
  \<^verbatim>\<open>fmul.s\<close>, \<^verbatim>\<open>fmadd.s\<close> and \<^verbatim>\<open>fcvt.s.w\<close> are missing. The specification gives both as the
  IEEE-754 single-precision multiply, fused multiply-add and integer-to-float conversion
  under round-to-nearest-even; that is what the definitions below compute, on the bits
  of the operands. An invalid operation yields the quiet NaN \<^verbatim>\<open>0x7FC00000\<close>.
\<close>

text \<open>
  An operand is a NaN, an infinity with its sign, or the number
  \<open>(-1)\<^sup>s * m * 2\<^sup>e\<close> with a sign, a significand \<open>m \<ge> 0\<close> and an exponent.
\<close>

datatype f32_class = NaN | Infinity bool | Finite bool int int

definition f32_classify :: "float32_t \<Rightarrow> f32_class" where
  "f32_classify w =
     (let s = (2 ^ 31 \<le> uint w); e = (uint w div 2 ^ 23) mod 256; f = uint w mod 2 ^ 23 in
      if e = 255 then (if f = 0 then Infinity s else NaN)
      else if e = 0 then Finite s f (- 149)
      else Finite s (2 ^ 23 + f) (e - 150))"

definition f32_sign :: "bool \<Rightarrow> float32_t" where
  "f32_sign s = (if s then 0x80000000 else 0)"

definition f32_inf :: "bool \<Rightarrow> float32_t" where
  "f32_inf s = f32_sign s + 0x7F800000"

definition f32_nan :: float32_t where
  "f32_nan = 0x7FC00000"

function bit_length :: "int \<Rightarrow> int" where
  "bit_length m = (if m \<le> 0 then 0 else 1 + bit_length (m div 2))"
  by pat_completeness auto
termination
  by (relation "measure nat") auto

text \<open>
  Rounding \<open>m * 2\<^sup>e\<close> to the nearest single-precision number, ties to the even
  significand: \<open>t\<close> is the exponent of the last kept bit (at least that of the
  subnormals), \<open>q\<close> the rounded significand. The encoding adds \<open>q\<close> to the exponent
  field, so that a carry out of the significand moves to the next exponent; a result
  beyond the largest finite number is an infinity.
\<close>

definition f32_round_pack :: "bool \<Rightarrow> int \<Rightarrow> int \<Rightarrow> float32_t" where
  "f32_round_pack s m e =
     (if m = 0 then f32_sign s
      else
        let t = max (e + bit_length m - 24) (- 149);
            q = (if t \<le> e then m * 2 ^ nat (e - t)
                 else
                   let q0 = m div 2 ^ nat (t - e); r = m mod 2 ^ nat (t - e);
                       h = 2 ^ (nat (t - e) - 1)
                   in if h < r \<or> (r = h \<and> odd q0) then q0 + 1 else q0);
            bits = (t + 149) * 2 ^ 23 + q
        in if 0x7F800000 \<le> bits then f32_inf s else f32_sign s + word_of_int bits)"

fun f32_round :: "f32_class \<Rightarrow> float32_t" where
  "f32_round NaN = f32_nan"
| "f32_round (Infinity s) = f32_inf s"
| "f32_round (Finite s m e) = f32_round_pack s m e"

text \<open>The exact product; zero times infinity is invalid.\<close>

fun exact_mul :: "f32_class \<Rightarrow> f32_class \<Rightarrow> f32_class" where
  "exact_mul NaN y = NaN"
| "exact_mul x NaN = NaN"
| "exact_mul (Infinity s) (Infinity t) = Infinity (s \<noteq> t)"
| "exact_mul (Infinity s) (Finite t m e) = (if m = 0 then NaN else Infinity (s \<noteq> t))"
| "exact_mul (Finite s m e) (Infinity t) = (if m = 0 then NaN else Infinity (s \<noteq> t))"
| "exact_mul (Finite s m e) (Finite t m' e') = Finite (s \<noteq> t) (m * m') (e + e')"

definition signed_value :: "bool \<Rightarrow> int \<Rightarrow> int" where
  "signed_value s m = (if s then - m else m)"

text \<open>
  The exact sum; infinities of opposite sign are invalid. An exact zero sum is \<open>-0\<close> only
  when both terms are \<open>-0\<close>.
\<close>

fun exact_add :: "f32_class \<Rightarrow> f32_class \<Rightarrow> f32_class" where
  "exact_add NaN y = NaN"
| "exact_add x NaN = NaN"
| "exact_add (Infinity s) (Infinity t) = (if s = t then Infinity s else NaN)"
| "exact_add (Infinity s) (Finite t m e) = Infinity s"
| "exact_add (Finite s m e) (Infinity t) = Infinity t"
| "exact_add (Finite s m e) (Finite t m' e') =
     (let x = min e e';
          v = signed_value s (m * 2 ^ nat (e - x)) + signed_value t (m' * 2 ^ nat (e' - x))
      in if v = 0 then Finite (s \<and> t) 0 x else Finite (v < 0) \<bar>v\<bar> x)"

definition ieee_mul :: "float32_t \<Rightarrow> float32_t \<Rightarrow> float32_t" where
  "ieee_mul a b = f32_round (exact_mul (f32_classify a) (f32_classify b))"

definition ieee_fma :: "float32_t \<Rightarrow> float32_t \<Rightarrow> float32_t \<Rightarrow> float32_t" where
  "ieee_fma a b c =
     f32_round (exact_add (exact_mul (f32_classify a) (f32_classify b)) (f32_classify c))"

definition ieee_cvt_i_f :: "int32_t \<Rightarrow> float32_t" where
  "ieee_cvt_i_f x = f32_round (Finite (sint x < 0) \<bar>sint x\<bar> 0)"

definition ieee_rne :: fpu where
  "ieee_rne = \<lparr>f32_mul = ieee_mul, f32_fma = ieee_fma, i32_to_f32 = ieee_cvt_i_f\<rparr>"

definition f32_is_finite :: "float32_t \<Rightarrow> bool" where
  "f32_is_finite w \<longleftrightarrow> (uint w div 2 ^ 23) mod 256 \<noteq> 255"

subsection \<open>Concrete inputs\<close>

text \<open>
  The scenario of the specification: \<open>n = 4\<close>, \<open>d = 1\<close>, \<open>gs = 2\<close>, all scales \<open>1.0\<close>
  (bits \<^verbatim>\<open>0x3F800000\<close>).
\<close>

definition scenario :: machine where
  "scenario =
     \<lparr>xout_buf = [0], xq_buf = [1, 2, 3, 4], xs_buf = [0x3F800000, 0x3F800000],
      wq_buf = [1, 1, 1, 1], ws_buf = [0x3F800000, 0x3F800000], trace = []\<rparr>"

text \<open>Two rows of one group each: \<open>n = 2\<close>, \<open>d = 2\<close>, \<open>gs = 2\<close>.\<close>

definition two_rows :: machine where
  "two_rows =
     \<lparr>xout_buf = [0, 0], xq_buf = [1, 2], xs_buf = [0x3F800000],
      wq_buf = [1, 1, 2, 2], ws_buf = [0x3F800000, 0x3F800000], trace = []\<rparr>"

text \<open>An empty row, \<open>n = 0\<close>, for one output.\<close>

definition empty_row :: machine where
  "empty_row =
     \<lparr>xout_buf = [0], xq_buf = [], xs_buf = [], wq_buf = [], ws_buf = [], trace = []\<rparr>"

text \<open>A row of \<open>n = 3\<close> elements for the group size 2: one whole group and one element over.\<close>

definition odd_row :: machine where
  "odd_row =
     \<lparr>xout_buf = [0], xq_buf = [1, 2, 3], xs_buf = [0x3F800000],
      wq_buf = [1, 1, 1], ws_buf = [0x3F800000], trace = []\<rparr>"

text \<open>One row that is one group of \<open>n = gs = 262144\<close> elements, all equal to 127.\<close>

definition big_group :: machine where
  "big_group =
     \<lparr>xout_buf = [0], xq_buf = replicate 262144 127, xs_buf = [0x3F800000],
      wq_buf = replicate 262144 127, ws_buf = [0x3F800000], trace = []\<rparr>"

text \<open>
  A zero input element with an infinite scale (bits \<^verbatim>\<open>0x7F800000\<close>), and with two scales
  equal to the largest finite number (bits \<^verbatim>\<open>0x7F7FFFFF\<close>).
\<close>

definition zero_times_inf :: machine where
  "zero_times_inf =
     \<lparr>xout_buf = [0], xq_buf = [0], xs_buf = [0x7F800000],
      wq_buf = [1], ws_buf = [0x3F800000], trace = []\<rparr>"

definition zero_times_large :: machine where
  "zero_times_large =
     \<lparr>xout_buf = [0], xq_buf = [0], xs_buf = [0x7F7FFFFF],
      wq_buf = [1], ws_buf = [0x7F7FFFFF], trace = []\<rparr>"

text \<open>
  A zero input vector with the scales \<open>1.0\<close> and the smallest subnormal; \<open>xout\<close> holds \<open>1.0\<close>
  before the call.
\<close>

definition zero_row :: machine where
  "zero_row =
     \<lparr>xout_buf = [0x3F800000], xq_buf = [0, 0], xs_buf = [0x3F800000],
      wq_buf = [5, - 7], ws_buf = [0x00000001], trace = []\<rparr>"

section \<open>Properties\<close>

declare dot_loop.simps [simp del]
declare row_loop.simps [simp del]
declare bit_length.simps [simp del]

subsection \<open>Index arithmetic on 64-bit words\<close>

lemma load_in_range: "unat i < length buf \<Longrightarrow> load buf i = Inr (buf ! unat i)"
  by (simp add: load_def)

lemma unat_succ: "k < bound \<Longrightarrow> unat (k + 1) = Suc (unat k)" for k bound :: uint64_t
  by unat_arith

lemma unat_add_small: "unat a + unat b < 2 ^ 64 \<Longrightarrow> unat (a + b) = unat a + unat b"
  for a b :: uint64_t
  by (simp add: unat_add_lem [THEN iffD1])

lemma unat_mult_small: "unat a * unat b < 2 ^ 64 \<Longrightarrow> unat (a * b) = unat a * unat b"
  for a b :: uint64_t
  by (simp add: unat_mult_lem [THEN iffD1])

lemma unat_sub_small: "unat b \<le> unat a \<Longrightarrow> unat (a - b) = unat a - unat b"
  for a b :: uint64_t
  by (simp add: unat_sub word_le_nat_alt)

lemma div_add_group: "0 < g \<Longrightarrow> (a + g) div g = Suc (a div g)" for a g :: nat
  by (simp add: div_add_self2)

subsection \<open>The integer dot product of a group\<close>

lemma dot_loop_sum:
  "unat k \<le> unat bound \<Longrightarrow> unat bound \<le> length xq \<Longrightarrow>
   unat in' + unat bound \<le> length wq \<Longrightarrow> unat in' + unat bound < 2 ^ 64 \<Longrightarrow>
   dot_loop xq wq in' bound k ival =
     Inr (ival + word_of_int (\<Sum>t = unat k..<unat bound. sint (xq ! t) * sint (wq ! (unat in' + t))))"
proof (induction xq wq in' bound k ival rule: dot_loop.induct)
  case (1 xq wq in' bound k ival)
  show ?case
  proof (cases "k < bound")
    case True
    then have lt: "unat k < unat bound"
      by (simp add: word_less_nat_alt)
    have suc: "unat (k + 1) = Suc (unat k)"
      using True by (rule unat_succ)
    have ld_x: "load xq k = Inr (xq ! unat k)"
      using lt "1.prems" by (simp add: load_in_range)
    have idx: "unat (in' + k) = unat in' + unat k"
      using lt "1.prems" by (intro unat_add_small) simp
    have ld_w: "load wq (in' + k) = Inr (wq ! (unat in' + unat k))"
      using lt "1.prems" idx by (simp add: load_in_range)
    have ih: "dot_loop xq wq in' bound (k + 1)
          (ival + scast (xq ! unat k) * scast (wq ! (unat in' + unat k))) =
        Inr (ival + scast (xq ! unat k) * scast (wq ! (unat in' + unat k)) +
          word_of_int (\<Sum>t = unat (k + 1)..<unat bound. sint (xq ! t) * sint (wq ! (unat in' + t))))"
      using "1.IH" [OF True ld_x ld_w] "1.prems" lt suc by simp
    have split: "(\<Sum>t = unat k..<unat bound. sint (xq ! t) * sint (wq ! (unat in' + t))) =
        sint (xq ! unat k) * sint (wq ! (unat in' + unat k)) +
        (\<Sum>t = Suc (unat k)..<unat bound. sint (xq ! t) * sint (wq ! (unat in' + t)))"
      using lt by (simp add: sum.atLeast_Suc_lessThan)
    show ?thesis
      apply (subst dot_loop.simps)
      apply (simp only: True if_True ld_x ld_w sum.case ih split suc)
      apply simp
      done
  next
    case False
    then have "unat k = unat bound"
      using "1.prems" by (simp add: word_less_nat_alt)
    with False show ?thesis
      by (subst dot_loop.simps) simp
  qed
qed

lemma dot_loop_group:
  assumes "unat j + unat gs \<le> length xq" "unat in' + unat j + unat gs \<le> length wq"
    "unat in' + unat j + unat gs < 2 ^ 64"
  shows "dot_loop xq wq in' (gs + j) j 0 =
    Inr (word_of_int (group_dot xq wq (unat in') (unat j) (unat gs)))"
proof -
  have bound: "unat (gs + j) = unat j + unat gs"
    using assms by (subst unat_add_small) auto
  have "dot_loop xq wq in' (gs + j) j 0 =
      Inr (0 + word_of_int (\<Sum>t = unat j..<unat (gs + j). sint (xq ! t) * sint (wq ! (unat in' + t))))"
    using assms bound by (intro dot_loop_sum) auto
  then show ?thesis
    by (simp only: bound group_dot_def add_0)
qed

subsection \<open>One group, and the loop over the groups of a row\<close>

lemma fold_group_frame [simp]:
  "fold_group fp (m\<lparr>xout_buf := b, trace := t\<rparr>) = fold_group fp m"
  by (simp add: fold_group_def fun_eq_iff)

lemma row_fold_frame [simp]:
  "row_fold fp (m\<lparr>xout_buf := b, trace := t\<rparr>) = row_fold fp m"
  by (simp add: row_fold_def fun_eq_iff)

lemma group_step_run:
  assumes gs: "0 < unat gs"
    and len: "unat j + unat gs \<le> length (xq_buf m)"
      "unat in' + unat j + unat gs \<le> length (wq_buf m)"
      "unat in' + unat j + unat gs < 2 ^ 64"
      "unat j div unat gs < length (xs_buf m)"
      "(unat in' + unat j) div unat gs < length (ws_buf m)"
    and base: "unat in' = i * n"
  shows "group_step fp m gs in' j acc = Inr (fold_group fp m n (unat gs) i acc (unat j))"
proof -
  have nz: "gs \<noteq> 0"
    using gs by (auto simp: unat_eq_0)
  have idx_w: "unat ((in' + j) div gs) = (unat in' + unat j) div unat gs"
    using len by (simp add: unat_div unat_add_small)
  have ld_a: "load (xs_buf m) (j div gs) = Inr (xs_buf m ! (unat j div unat gs))"
    using len by (simp add: load_in_range unat_div)
  have ld_b: "load (ws_buf m) ((in' + j) div gs) =
      Inr (ws_buf m ! ((unat in' + unat j) div unat gs))"
    using len idx_w by (simp add: load_in_range)
  show ?thesis
    unfolding group_step_def fold_group_def
    by (simp add: dot_loop_group [OF len(1-3)] nz ld_a ld_b base)
qed

lemma group_loop_run:
  assumes gs: "0 < unat gs" "unat gs \<le> unat n"
    and len: "unat n \<le> length (xq_buf m)"
      "i * unat n + unat n \<le> length (wq_buf m)"
      "i * unat n + unat n < 2 ^ 64"
      "unat n div unat gs \<le> length (xs_buf m)"
      "(i * unat n + unat n) div unat gs \<le> length (ws_buf m)"
    and base: "unat in' = i * unat n"
  shows "g \<le> unat n div unat gs \<Longrightarrow> unat j = g * unat gs \<Longrightarrow>
    group_loop fp m n gs in' j acc =
      Some (Inr (foldl (fold_group fp m (unat n) (unat gs) i) acc
        (map (\<lambda>g. g * unat gs) [g..<unat n div unat gs])))"
proof (induction "unat n div unat gs - g" arbitrary: g j acc)
  case 0
  then have g: "g = unat n div unat gs"
    by simp
  have "unat n < (unat n div unat gs) * unat gs + unat gs"
    using gs(1) by (metis add.commute dividend_less_div_times)
  moreover have "unat j = (unat n div unat gs) * unat gs"
    using "0.prems" g by simp
  ultimately have "unat n - unat gs < unat j"
    using gs(2) by linarith
  then have "\<not> j \<le> n - gs"
    using gs by (simp add: word_le_nat_alt unat_sub_small)
  then show ?case
    using g by (subst group_loop.simps) simp
next
  case (Suc k)
  then have g: "g < unat n div unat gs"
    by simp
  then have "Suc g \<le> unat n div unat gs"
    by simp
  then have "Suc g * unat gs \<le> unat n"
    using gs(1) by (simp only: less_eq_div_iff_mult_less_eq)
  then have fit: "unat j + unat gs \<le> unat n"
    using Suc.prems by simp
  then have cond: "j \<le> n - gs"
    using gs by (simp add: word_le_nat_alt unat_sub_small)
  have "(unat j + unat gs) div unat gs \<le> unat n div unat gs"
    using fit by (rule div_le_mono)
  moreover have "(unat j + unat gs) div unat gs = Suc (unat j div unat gs)"
    using gs(1) by (rule div_add_group)
  ultimately have idx_a: "unat j div unat gs < length (xs_buf m)"
    using len(4) by linarith
  have "(i * unat n + unat j + unat gs) div unat gs \<le> (i * unat n + unat n) div unat gs"
    using fit by (intro div_le_mono) simp
  moreover have "(i * unat n + unat j + unat gs) div unat gs =
      Suc ((i * unat n + unat j) div unat gs)"
    using gs(1) by (rule div_add_group)
  ultimately have "(i * unat n + unat j) div unat gs < length (ws_buf m)"
    using len(5) by linarith
  then have idx_b: "(unat in' + unat j) div unat gs < length (ws_buf m)"
    by (simp only: base)
  have step: "group_step fp m gs in' j acc =
      Inr (fold_group fp m (unat n) (unat gs) i acc (unat j))"
    using gs(1) fit len idx_a idx_b base by (intro group_step_run) auto
  have next_j: "unat (j + gs) = Suc g * unat gs"
    using fit len Suc.prems by (subst unat_add_small) auto
  have ih: "group_loop fp m n gs in' (j + gs) (fold_group fp m (unat n) (unat gs) i acc (unat j)) =
      Some (Inr (foldl (fold_group fp m (unat n) (unat gs) i)
        (fold_group fp m (unat n) (unat gs) i acc (unat j))
        (map (\<lambda>g. g * unat gs) [Suc g..<unat n div unat gs])))"
    using Suc.hyps(2) g next_j by (intro Suc.hyps(1)) auto
  have upt: "[g..<unat n div unat gs] = g # [Suc g..<unat n div unat gs]"
    using g by (simp add: upt_conv_Cons)
  have "group_loop fp m n gs in' j acc =
      group_loop fp m n gs in' (j + gs) (fold_group fp m (unat n) (unat gs) i acc (unat j))"
    by (subst group_loop.simps) (simp only: cond if_True step sum.case)
  also note ih
  also have "foldl (fold_group fp m (unat n) (unat gs) i)
        (fold_group fp m (unat n) (unat gs) i acc (unat j))
        (map (\<lambda>g. g * unat gs) [Suc g..<unat n div unat gs]) =
      foldl (fold_group fp m (unat n) (unat gs) i) acc
        (map (\<lambda>g. g * unat gs) [g..<unat n div unat gs])"
    by (simp only: upt list.map foldl_Cons Suc.prems(2))
  finally show ?case .
qed

subsection \<open>The rows\<close>

lemma buffers_fit_frame [simp]:
  "length b = length (xout_buf m) \<Longrightarrow>
   buffers_fit (m\<lparr>xout_buf := b, trace := t\<rparr>) n d gs = buffers_fit m n d gs"
  by (simp add: buffers_fit_def)

lemma row_within:
  fixes i d n :: nat
  assumes "i < d"
  shows "i * n + n \<le> d * n"
proof -
  have "Suc i * n \<le> d * n"
    using assms by (intro mult_le_mono1) simp
  then show ?thesis
    by (simp add: add.commute)
qed

lemma row_body_run:
  assumes gs: "0 < unat gs" "unat gs \<le> unat n"
    and fit: "buffers_fit m n d gs"
    and row: "i < d"
  shows "row_body fp n gs i m =
    Some (Inr (m\<lparr>xout_buf := (xout_buf m)[unat i := row_fold fp m (unat n) (unat gs) (unat i)],
                 trace := trace m @ [Store_xout i (row_fold fp m (unat n) (unat gs) (unat i))]\<rparr>))"
proof -
  have i: "unat i < unat d"
    using row by (simp add: word_less_nat_alt)
  have within: "unat i * unat n + unat n \<le> unat d * unat n"
    using i by (rule row_within)
  have base: "unat (i * n) = unat i * unat n"
    using within fit by (intro unat_mult_small) (simp add: buffers_fit_def)
  have "(unat i * unat n + unat n) div unat gs \<le> (unat d * unat n) div unat gs"
    using within by (rule div_le_mono)
  then have ws: "(unat i * unat n + unat n) div unat gs \<le> length (ws_buf m)"
    using fit by (simp add: buffers_fit_def)
  have "group_loop fp m n gs (i * n) 0 0 =
      Some (Inr (foldl (fold_group fp m (unat n) (unat gs) (unat i)) 0
        (map (\<lambda>g. g * unat gs) [0..<unat n div unat gs])))"
    using gs fit within ws base
    by (intro group_loop_run) (simp_all add: buffers_fit_def)
  then have loop: "group_loop fp m n gs (i * n) 0 0 =
      Some (Inr (row_fold fp m (unat n) (unat gs) (unat i)))"
    by (simp only: row_fold_def group_offsets_def)
  have "unat i < length (xout_buf m)"
    using i fit by (simp add: buffers_fit_def)
  then show ?thesis
    by (simp add: row_body_def loop store_xout_def)
qed

lemma rows_in_order_run:
  assumes gs: "0 < unat gs" "unat gs \<le> unat n"
  shows "buffers_fit m n d gs \<Longrightarrow> \<forall>i \<in> set sched. i < d \<Longrightarrow>
    rows_in_order fp n gs sched m =
      Some (Inr (m\<lparr>xout_buf :=
                    fold (\<lambda>i b. b[unat i := row_fold fp m (unat n) (unat gs) (unat i)]) sched
                      (xout_buf m),
                  trace := trace m @
                    map (\<lambda>i. Store_xout i (row_fold fp m (unat n) (unat gs) (unat i))) sched\<rparr>))"
proof (induction sched arbitrary: m)
  case Nil
  then show ?case by simp
next
  case (Cons i sched)
  let ?v = "row_fold fp m (unat n) (unat gs) (unat i)"
  let ?m' = "m\<lparr>xout_buf := (xout_buf m)[unat i := ?v], trace := trace m @ [Store_xout i ?v]\<rparr>"
  have body: "row_body fp n gs i m = Some (Inr ?m')"
    using gs Cons.prems by (intro row_body_run) auto
  have fit': "buffers_fit ?m' n d gs"
    using Cons.prems by simp
  have "rows_in_order fp n gs sched ?m' =
      Some (Inr (?m'\<lparr>xout_buf :=
                    fold (\<lambda>i b. b[unat i := row_fold fp ?m' (unat n) (unat gs) (unat i)]) sched
                      (xout_buf ?m'),
                  trace := trace ?m' @
                    map (\<lambda>i. Store_xout i (row_fold fp ?m' (unat n) (unat gs) (unat i))) sched\<rparr>))"
    using fit' Cons.prems by (intro Cons.IH) auto
  then show ?case
    by (simp add: body)
qed

lemma row_loop_rows:
  "unat i \<le> unat d \<Longrightarrow>
   row_loop fp n d gs i m = rows_in_order fp n gs (map of_nat [unat i..<unat d]) m"
proof (induction fp n d gs i m rule: row_loop.induct)
  case (1 fp n d gs i m)
  show ?case
  proof (cases "i < d")
    case True
    then have lt: "unat i < unat d"
      by (simp add: word_less_nat_alt)
    have suc: "unat (i + 1) = Suc (unat i)"
      using True by (rule unat_succ)
    have upt: "map of_nat [unat i..<unat d] = i # map of_nat [unat (i + 1)..<unat d]"
      using lt by (simp add: upt_conv_Cons suc)
    have ih: "row_loop fp n d gs (i + 1) m' =
        rows_in_order fp n gs (map of_nat [unat (i + 1)..<unat d]) m'"
      if "row_body fp n gs i m = Some (Inr m')" for m'
      using that True lt suc by (intro "1.IH") auto
    show ?thesis
      apply (subst row_loop.simps)
      apply (subst upt)
      apply (auto simp: True ih split: option.split sum.split)
      done
  next
    case False
    then have "unat i = unat d"
      using "1.prems" by (simp add: word_less_nat_alt)
    with False show ?thesis
      by (subst row_loop.simps) simp
  qed
qed

lemma unat_bound64: "unat d < 2 ^ 64" for d :: uint64_t
proof -
  have "unat d < 2 ^ LENGTH(64)"
    by (rule unsigned_less)
  then show ?thesis
    by simp
qed

lemma unat_of_nat_row: "k < unat d \<Longrightarrow> unat (of_nat k :: uint64_t) = k" for d :: uint64_t
  using unat_bound64 [of d] by (simp add: unat_of_nat)

lemma rows_upto:
  fixes d :: uint64_t
  shows "set (map of_nat [0..<unat d]) = {i. i < d}"
    and "distinct (map of_nat [0..<unat d] :: uint64_t list)"
proof -
  show "set (map of_nat [0..<unat d]) = {i. i < d}"
  proof (intro set_eqI iffI)
    fix i :: uint64_t
    assume "i \<in> set (map of_nat [0..<unat d])"
    then obtain k where k: "k < unat d" "i = of_nat k"
      by auto
    have "unat (of_nat k :: uint64_t) = k"
      using k(1) by (rule unat_of_nat_row)
    then have "unat (of_nat k :: uint64_t) < unat d"
      using k(1) by (rule ssubst)
    then have "unat i < unat d"
      unfolding k(2) .
    then show "i \<in> {i. i < d}"
      by (simp add: word_less_nat_alt)
  next
    fix i :: uint64_t
    assume "i \<in> {i. i < d}"
    then have "unat i < unat d"
      by (simp add: word_less_nat_alt)
    then have "unat i \<in> set [0..<unat d]"
      by simp
    moreover have "i = of_nat (unat i)"
      by simp
    ultimately show "i \<in> set (map of_nat [0..<unat d])"
      unfolding set_map by (rule image_eqI [rotated])
  qed
  show "distinct (map of_nat [0..<unat d] :: uint64_t list)"
  proof (subst distinct_map, intro conjI inj_onI)
    show "distinct [0..<unat d]" by simp
    fix x y assume xy: "x \<in> set [0..<unat d]" "y \<in> set [0..<unat d]"
      and eq: "(of_nat x :: uint64_t) = of_nat y"
    have lt: "x < unat d" "y < unat d"
      using xy by simp_all
    have "x = unat (of_nat x :: uint64_t)"
      using lt(1) by (rule unat_of_nat_row [symmetric])
    also from eq have "\<dots> = unat (of_nat y :: uint64_t)"
      by (rule arg_cong)
    also have "\<dots> = y"
      using lt(2) by (rule unat_of_nat_row)
    finally show "x = y" .
  qed
qed

subsection \<open>The output buffer after the rows\<close>

lemma length_fold_update [simp]:
  "length (fold (\<lambda>i b. b[unat i := f (unat i)]) sched b) = length b"
  by (induction sched arbitrary: b) simp_all

lemma nth_fold_update:
  "k < length b \<Longrightarrow>
   fold (\<lambda>i b. b[unat i := f (unat i)]) sched b ! k =
     (if k \<in> unat ` set sched then f k else b ! k)"
proof (induction sched arbitrary: b)
  case Nil
  then show ?case by simp
next
  case (Cons i sched)
  then show ?case
    by (cases "k = unat i") auto
qed

lemma unat_rows: "unat ` {i. i < d} = {0..<unat d}" for d :: uint64_t
proof (intro set_eqI iffI)
  fix k assume "k \<in> unat ` {i. i < d}"
  then show "k \<in> {0..<unat d}"
    by (auto simp: word_less_nat_alt)
next
  fix k assume "k \<in> {0..<unat d}"
  then have k: "k < unat d"
    by simp
  then have eq: "unat (of_nat k :: uint64_t) = k"
    by (rule unat_of_nat_row)
  then have "unat (of_nat k :: uint64_t) < unat d"
    using k by (rule ssubst)
  then have "(of_nat k :: uint64_t) \<in> {i. i < d}"
    by (simp add: word_less_nat_alt)
  then have "unat (of_nat k :: uint64_t) \<in> unat ` {i. i < d}"
    by (rule imageI)
  then show "k \<in> unat ` {i. i < d}"
    by (simp only: eq)
qed

lemma fold_update_schedule:
  assumes "schedule_of d sched" "unat d \<le> length b"
  shows "fold (\<lambda>i b. b[unat i := f (unat i)]) sched b = map f [0..<unat d] @ drop (unat d) b"
proof (rule nth_equalityI)
  show "length (fold (\<lambda>i b. b[unat i := f (unat i)]) sched b) =
      length (map f [0..<unat d] @ drop (unat d) b)"
    using assms(2) by simp
next
  fix k assume "k < length (fold (\<lambda>i b. b[unat i := f (unat i)]) sched b)"
  then have k: "k < length b"
    by simp
  have rows: "unat ` set sched = {0..<unat d}"
    using assms(1) by (simp add: schedule_of_def unat_rows)
  show "fold (\<lambda>i b. b[unat i := f (unat i)]) sched b ! k =
      (map f [0..<unat d] @ drop (unat d) b) ! k"
    using k assms(2) by (simp add: nth_fold_update rows nth_append)
qed

lemma schedule_of_rows: "schedule_of d (map of_nat [0..<unat d])"
  by (simp add: schedule_of_def rows_upto del: set_map distinct_map)

lemma map_rows_stores:
  "map (\<lambda>i. Store_xout i (f (unat i))) (map of_nat [0..<unat d]) =
   map (\<lambda>k. Store_xout (of_nat k) (f k)) [0..<unat d]" for d :: uint64_t
proof -
  have "unat (of_nat k :: uint64_t) = k" if "k \<in> set [0..<unat d]" for k
    using that by (intro unat_of_nat_row [of _ d]) simp
  then show ?thesis
    by (simp add: comp_def cong: map_cong)
qed

subsection \<open>A complete run of the kernel\<close>

lemma kernel_entry_omp_run:
  assumes gs: "0 < unat gs" "unat gs \<le> unat n"
    and fit: "buffers_fit m n d gs"
    and sched: "schedule_of d sched"
  shows "kernel_entry_omp sched r fp m n d gs =
    Some (Inr (leave r (halt r (m\<lparr>
      xout_buf := xout_after fp m (unat n) (unat d) (unat gs),
      trace := trace m @
        map (\<lambda>i. Store_xout i (row_fold fp m (unat n) (unat gs) (unat i))) sched\<rparr>))))"
proof -
  have rows: "\<forall>i \<in> set sched. i < d"
    using sched by (simp add: schedule_of_def)
  have len: "unat d \<le> length (xout_buf m)"
    using fit by (simp add: buffers_fit_def)
  show ?thesis
    unfolding kernel_entry_omp_def xout_after_def
    by (simp add: rows_in_order_run [OF gs fit rows] fold_update_schedule [OF sched len])
qed

lemma kernel_entry_run:
  assumes gs: "0 < unat gs" "unat gs \<le> unat n"
    and fit: "buffers_fit m n d gs"
  shows "kernel_entry r fp m n d gs =
    Some (Inr (leave r (halt r (m\<lparr>
      xout_buf := xout_after fp m (unat n) (unat d) (unat gs),
      trace := trace m @ row_stores fp m (unat n) (unat d) (unat gs)\<rparr>))))"
proof -
  have "kernel_entry r fp m n d gs = kernel_entry_omp (map of_nat [0..<unat d]) r fp m n d gs"
    by (simp add: kernel_entry_def kernel_entry_omp_def row_loop_rows del: map_map)
  also have "\<dots> = Some (Inr (leave r (halt r (m\<lparr>
      xout_buf := xout_after fp m (unat n) (unat d) (unat gs),
      trace := trace m @
        map (\<lambda>i. Store_xout i (row_fold fp m (unat n) (unat gs) (unat i)))
          (map of_nat [0..<unat d])\<rparr>))))"
    using gs fit schedule_of_rows by (rule kernel_entry_omp_run)
  finally show ?thesis
    by (simp only: map_rows_stores row_stores_def)
qed

lemma nth_xout_after:
  "i < d \<Longrightarrow> xout_after fp m n d gs ! i = row_fold fp m n gs i"
  by (simp add: xout_after_def nth_append)


lemma leave_halt_buffers [simp]:
  "xout_buf (leave r (halt r m)) = xout_buf m"
  "xq_buf (leave r (halt r m)) = xq_buf m"
  "xs_buf (leave r (halt r m)) = xs_buf m"
  "wq_buf (leave r (halt r m)) = wq_buf m"
  "ws_buf (leave r (halt r m)) = ws_buf m"
  by (cases r; simp)+

subsection \<open>The concrete scenario\<close>

lemma cvt_3: "ieee_cvt_i_f 3 = 0x40400000"
  by code_simp

lemma cvt_7: "ieee_cvt_i_f 7 = 0x40E00000"
  by code_simp

lemma mul_one_one: "ieee_mul 0x3F800000 0x3F800000 = 0x3F800000"
  by code_simp

lemma fma_3: "ieee_fma 0x40400000 0x3F800000 0 = 0x40400000"
  by code_simp

lemma fma_7: "ieee_fma 0x40E00000 0x3F800000 0x40400000 = 0x41200000"
  by code_simp

lemma scenario_dots:
  "group_dot (xq_buf scenario) (wq_buf scenario) 0 0 2 = 3"
  "group_dot (xq_buf scenario) (wq_buf scenario) 0 2 2 = 7"
  by (simp_all add: group_dot_def scenario_def sum.atLeast_Suc_lessThan)

lemma scenario_fold: "row_fold ieee_rne scenario 4 2 0 = 0x41200000"
proof -
  have offsets: "group_offsets 4 2 = [0, 2]"
    by (simp add: group_offsets_def upt_conv_Cons)
  have g0: "fold_group ieee_rne scenario 4 2 0 0 0 = 0x40400000"
    using scenario_dots(1)
    by (simp add: fold_group_def ieee_rne_def scenario_def cvt_3 mul_one_one fma_3)
  have g1: "fold_group ieee_rne scenario 4 2 0 0x40400000 2 = 0x41200000"
    using scenario_dots(2)
    by (simp add: fold_group_def ieee_rne_def scenario_def cvt_7 mul_one_one fma_7)
  show ?thesis
    by (simp add: row_fold_def offsets g0 g1)
qed

lemma scenario_fit: "buffers_fit scenario 4 1 2"
  by (simp add: buffers_fit_def scenario_def)

text \<open>
  C3. For \<open>n = 4\<close>, \<open>d = 1\<close>, \<open>gs = 2\<close>, \<open>xq = [1, 2, 3, 4]\<close>, \<open>wq = [1, 1, 1, 1]\<close> and all
  scales \<open>1.0\<close> (bits \<^verbatim>\<open>0x3F800000\<close>), the two groups have the integer sums 3 and 7, the
  first fused multiply-add gives \<open>3.0\<close> (bits \<^verbatim>\<open>0x40400000\<close>) and the second \<open>10.0\<close> (bits
  \<^verbatim>\<open>0x41200000\<close>), and \<^verbatim>\<open>kernel_entry\<close> ends with \<open>xout[0] = 10.0\<close> in both realizations.
\<close>

theorem scenario_result:
  "dot_loop (xq_buf scenario) (wq_buf scenario) 0 (2 + 0) 0 0 = Inr 3 \<and>
   dot_loop (xq_buf scenario) (wq_buf scenario) 0 (2 + 2) 2 0 = Inr 7 \<and>
   group_step ieee_rne scenario 2 0 0 0 = Inr 0x40400000 \<and>
   group_step ieee_rne scenario 2 0 2 0x40400000 = Inr 0x41200000 \<and>
   kernel_entry Host ieee_rne scenario 4 1 2 =
     Some (Inr (scenario\<lparr>xout_buf := [0x41200000],
                          trace := [Store_xout 0 0x41200000, Return]\<rparr>)) \<and>
   kernel_entry Guest ieee_rne scenario 4 1 2 =
     Some (Inr (scenario\<lparr>xout_buf := [0x41200000],
                          trace := [Store_xout 0 0x41200000, Store_htif 0x40008000 1]\<rparr>))"
proof -
  have d0: "dot_loop (xq_buf scenario) (wq_buf scenario) 0 (2 + 0) 0 0 = Inr 3"
    using dot_loop_group [of 0 2 "xq_buf scenario" 0 "wq_buf scenario"] scenario_dots(1)
    by (simp add: scenario_def)
  have d2: "dot_loop (xq_buf scenario) (wq_buf scenario) 0 (2 + 2) 2 0 = Inr 7"
    using dot_loop_group [of 2 2 "xq_buf scenario" 0 "wq_buf scenario"] scenario_dots(2)
    by (simp add: scenario_def)
  have ld: "load (xs_buf scenario) 0 = Inr 0x3F800000" "load (xs_buf scenario) 1 = Inr 0x3F800000"
    "load (ws_buf scenario) 0 = Inr 0x3F800000" "load (ws_buf scenario) 1 = Inr 0x3F800000"
    by (simp_all add: load_def scenario_def)
  have s0: "group_step ieee_rne scenario 2 0 0 0 = Inr 0x40400000"
    using d0 by (simp add: group_step_def ld ieee_rne_def cvt_3 mul_one_one fma_3)
  have s2: "group_step ieee_rne scenario 2 0 2 0x40400000 = Inr 0x41200000"
    using d2 by (simp add: group_step_def ld ieee_rne_def cvt_7 mul_one_one fma_7)
  have n: "unat (4 :: uint64_t) = 4" and d: "unat (1 :: uint64_t) = Suc 0"
    and gs: "unat (2 :: uint64_t) = 2"
    by simp_all
  have out: "xout_after ieee_rne scenario 4 (Suc 0) 2 = [0x41200000]"
    by (simp add: xout_after_def scenario_fold) (simp add: scenario_def)
  have stores: "trace scenario @ row_stores ieee_rne scenario 4 (Suc 0) 2 =
      [Store_xout 0 0x41200000]"
    by (simp add: row_stores_def scenario_fold) (simp add: scenario_def)
  have run: "kernel_entry r ieee_rne scenario 4 1 2 =
      Some (Inr (leave r (halt r (scenario\<lparr>xout_buf := [0x41200000],
        trace := [Store_xout 0 0x41200000]\<rparr>))))" for r
    using kernel_entry_run [of 2 4 scenario 1 r ieee_rne, OF _ _ scenario_fit]
    by (simp only: n d gs out stores)
  show ?thesis
    using d0 d2 s0 s2 by (simp add: run HTIF_START_def)
qed

subsection \<open>A group size that does not divide the row\<close>

lemma whole_group_within:
  fixes n gs g k :: nat
  assumes "g < n div gs" "k < g * gs + gs"
  shows "k < (n div gs) * gs"
proof -
  have "Suc g * gs \<le> (n div gs) * gs"
    using assms(1) by (intro mult_le_mono1) simp
  then show ?thesis
    using assms(2) by simp
qed

lemma group_dot_cong:
  assumes "\<forall>k < (n div gs) * gs. xq' ! k = xq ! k"
    and "\<forall>k < (n div gs) * gs. wq' ! (base + k) = wq ! (base + k)"
    and "g < n div gs"
  shows "group_dot xq' wq' base (g * gs) gs = group_dot xq wq base (g * gs) gs"
  unfolding group_dot_def
proof (rule sum.cong [OF refl])
  fix k assume "k \<in> {g * gs..<g * gs + gs}"
  then have "k < (n div gs) * gs"
    using assms(3) by (intro whole_group_within [of g n gs k]) auto
  then show "sint (xq' ! k) * sint (wq' ! (base + k)) = sint (xq ! k) * sint (wq ! (base + k))"
    using assms(1,2) by simp
qed

lemma row_fold_cong:
  assumes "\<forall>k < (n div gs) * gs. xq' ! k = xq_buf m ! k"
    and "\<forall>k < (n div gs) * gs. wq' ! (i * n + k) = wq_buf m ! (i * n + k)"
  shows "row_fold fp (m\<lparr>xq_buf := xq', wq_buf := wq'\<rparr>) n gs i = row_fold fp m n gs i"
  unfolding row_fold_def
proof (rule foldl_cong [OF refl refl])
  fix acc j assume "j \<in> set (group_offsets n gs)"
  then obtain g where g: "g < n div gs" "j = g * gs"
    by (auto simp: group_offsets_def)
  have "group_dot xq' wq' (i * n) (g * gs) gs = group_dot (xq_buf m) (wq_buf m) (i * n) (g * gs) gs"
    using assms g(1) by (rule group_dot_cong)
  then show "fold_group fp (m\<lparr>xq_buf := xq', wq_buf := wq'\<rparr>) n gs i acc j =
      fold_group fp m n gs i acc j"
    by (simp add: fold_group_def g(2))
qed

text \<open>
  C5. When \<open>1 \<le> gs \<le> n\<close>, \<open>gs\<close> does not divide \<open>n\<close> and the buffers fit, the kernel returns
  normally (there is no error), and each \<open>xout[i]\<close> is the fold over the \<open>n div gs\<close> whole
  groups of row \<open>i\<close> only. The elements of \<open>xq\<close> and \<open>wq\<close> at the row offsets from
  \<open>(n div gs) * gs\<close> up to \<open>n\<close>, of which there is at least one, contribute nothing:
  replacing them by any other values leaves \<open>xout\<close> the same.
\<close>

theorem partial_group_dropped:
  assumes gs: "1 \<le> unat gs" "unat gs \<le> unat n" "\<not> unat gs dvd unat n"
    and fit: "buffers_fit m n d gs"
    and len: "length xq' = length (xq_buf m)" "length wq' = length (wq_buf m)"
    and xq': "\<forall>k < (unat n div unat gs) * unat gs. xq' ! k = xq_buf m ! k"
    and wq': "\<forall>i < unat d. \<forall>k < (unat n div unat gs) * unat gs.
      wq' ! (i * unat n + k) = wq_buf m ! (i * unat n + k)"
  shows "\<exists>m1 m2. kernel_entry r fp m n d gs = Some (Inr m1) \<and>
    kernel_entry r fp (m\<lparr>xq_buf := xq', wq_buf := wq'\<rparr>) n d gs = Some (Inr m2) \<and>
    xout_buf m2 = xout_buf m1 \<and>
    (\<forall>i < unat d. xout_buf m1 ! i = row_fold fp m (unat n) (unat gs) i) \<and>
    length (group_offsets (unat n) (unat gs)) = unat n div unat gs \<and>
    (unat n div unat gs) * unat gs < unat n"
proof -
  let ?m2 = "m\<lparr>xq_buf := xq', wq_buf := wq'\<rparr>"
  have run1: "kernel_entry r fp m n d gs = Some (Inr (leave r (halt r (m\<lparr>
      xout_buf := xout_after fp m (unat n) (unat d) (unat gs),
      trace := trace m @ row_stores fp m (unat n) (unat d) (unat gs)\<rparr>))))"
    using gs fit by (intro kernel_entry_run) auto
  have fit2: "buffers_fit ?m2 n d gs"
    using fit len by (simp add: buffers_fit_def)
  have run2: "kernel_entry r fp ?m2 n d gs = Some (Inr (leave r (halt r (?m2\<lparr>
      xout_buf := xout_after fp ?m2 (unat n) (unat d) (unat gs),
      trace := trace ?m2 @ row_stores fp ?m2 (unat n) (unat d) (unat gs)\<rparr>))))"
    using gs fit2 by (intro kernel_entry_run) auto
  have rows: "row_fold fp ?m2 (unat n) (unat gs) i = row_fold fp m (unat n) (unat gs) i"
    if "i < unat d" for i
    using xq' wq' that by (intro row_fold_cong) auto
  have same: "xout_after fp ?m2 (unat n) (unat d) (unat gs) =
      xout_after fp m (unat n) (unat d) (unat gs)"
    by (simp add: xout_after_def rows cong: map_cong)
  have tail: "(unat n div unat gs) * unat gs < unat n"
  proof -
    have "unat n mod unat gs \<noteq> 0"
      using gs(3) by (simp add: dvd_eq_mod_eq_0)
    moreover have "unat n = (unat n div unat gs) * unat gs + unat n mod unat gs"
      by simp
    ultimately show ?thesis
      by linarith
  qed
  show ?thesis
    using tail by (simp add: run1 run2 same nth_xout_after group_offsets_def)
qed

theorem partial_group_dropped_witness:
  "1 \<le> unat (2 :: uint64_t) \<and> unat (2 :: uint64_t) \<le> unat (3 :: uint64_t) \<and>
   \<not> unat (2 :: uint64_t) dvd unat (3 :: uint64_t) \<and> buffers_fit odd_row 3 1 2 \<and>
   (\<exists>m1 m2. kernel_entry Host ieee_rne odd_row 3 1 2 = Some (Inr m1) \<and>
      kernel_entry Host ieee_rne (odd_row\<lparr>xq_buf := [1, 2, 100], wq_buf := [1, 1, 50]\<rparr>) 3 1 2 =
        Some (Inr m2) \<and>
      xout_buf m2 = xout_buf m1)"
proof -
  have gs: "1 \<le> unat (2 :: uint64_t)" "unat (2 :: uint64_t) \<le> unat (3 :: uint64_t)"
    "\<not> unat (2 :: uint64_t) dvd unat (3 :: uint64_t)"
    by simp_all
  have fit: "buffers_fit odd_row 3 1 2"
    by (simp add: buffers_fit_def odd_row_def)
  have len: "length [1, 2, 100 :: int8_t] = length (xq_buf odd_row)"
    "length [1, 1, 50 :: int8_t] = length (wq_buf odd_row)"
    by (simp_all add: odd_row_def)
  have xq': "\<forall>k < (unat (3 :: uint64_t) div unat (2 :: uint64_t)) * unat (2 :: uint64_t).
      [1, 2, 100 :: int8_t] ! k = xq_buf odd_row ! k"
    by (auto simp: odd_row_def less_2_cases_iff)
  have wq': "\<forall>i < unat (1 :: uint64_t).
      \<forall>k < (unat (3 :: uint64_t) div unat (2 :: uint64_t)) * unat (2 :: uint64_t).
        [1, 1, 50 :: int8_t] ! (i * unat (3 :: uint64_t) + k) =
        wq_buf odd_row ! (i * unat (3 :: uint64_t) + k)"
    by (auto simp: odd_row_def less_2_cases_iff)
  show ?thesis
    using partial_group_dropped [OF gs fit len xq' wq', of Host ieee_rne] gs fit
    by auto
qed

subsection \<open>A group size larger than the row\<close>

lemma load_fault: "load buf i = Inl e \<Longrightarrow> e = Out_of_bounds"
  by (simp add: load_def split: if_splits)

lemma dot_loop_overrun:
  "length xq < unat bound \<Longrightarrow> unat k \<le> length xq \<Longrightarrow>
   dot_loop xq wq in' bound k ival = Inl Out_of_bounds"
proof (induction xq wq in' bound k ival rule: dot_loop.induct)
  case (1 xq wq in' bound k ival)
  have lt: "k < bound"
    using "1.prems" by (simp add: word_less_nat_alt)
  show ?case
  proof (cases "unat k < length xq")
    case False
    then have "load xq k = Inl Out_of_bounds"
      by (simp add: load_def)
    then show ?thesis
      using lt by (subst dot_loop.simps) simp
  next
    case True
    then have ld_x: "load xq k = Inr (xq ! unat k)"
      by (simp add: load_def)
    have suc: "unat (k + 1) = Suc (unat k)"
      using lt by (rule unat_succ)
    show ?thesis
    proof (cases "load wq (in' + k)")
      case (Inl e)
      then have "e = Out_of_bounds"
        by (rule load_fault)
      with Inl show ?thesis
        using lt ld_x by (subst dot_loop.simps) simp
    next
      case (Inr w)
      have "dot_loop xq wq in' bound (k + 1) (ival + scast (xq ! unat k) * scast w) =
          Inl Out_of_bounds"
        using lt ld_x Inr "1.prems" True suc by (intro "1.IH") auto
      then show ?thesis
        using lt ld_x Inr by (subst dot_loop.simps) simp
    qed
  qed
qed

lemma row_loop_first_fault:
  assumes "0 < d" "row_body fp n gs 0 m = Some (Inl e)"
  shows "row_loop fp n d gs 0 m = Some (Inl e)"
  using assms by (subst row_loop.simps) simp

text \<open>
  C6. When \<open>gs > n\<close> (for instance \<open>n = 0\<close>, \<open>gs = 1\<close>), \<open>d \<ge> 1\<close> and \<open>xq\<close> has its \<open>n\<close>
  elements, the unsigned loop bound \<^verbatim>\<open>n - gs\<close> has wrapped to \<open>2\<^sup>6\<^sup>4 + n - gs\<close>, the
  condition \<^verbatim>\<open>j <= n - gs\<close> holds at \<open>j = 0\<close>, and the first group of row 0 reads \<open>xq\<close>
  beyond its end: the kernel runs into an out-of-bounds access instead of completing.
  A run that stays in bounds therefore needs \<open>gs \<le> n\<close>.
\<close>

theorem group_bound_wraps:
  assumes "n < gs" "0 < d" "length (xq_buf m) = unat n"
  shows "unat (n - gs) = 2 ^ 64 + unat n - unat gs \<and> 0 \<le> n - gs \<and>
    kernel_entry r fp m n d gs = Some (Inl Out_of_bounds)"
proof -
  have lt: "unat n < unat gs"
    using assms(1) by (simp add: word_less_nat_alt)
  have wrap: "unat (n - gs) = 2 ^ 64 + unat n - unat gs"
    using lt by (simp add: unat_sub_if')
  have "dot_loop (xq_buf m) (wq_buf m) (0 * n) (gs + 0) 0 0 = Inl Out_of_bounds"
    using lt assms(3) by (intro dot_loop_overrun) auto
  then have "group_step fp m gs (0 * n) 0 0 = Inl Out_of_bounds"
    by (simp add: group_step_def)
  then have "group_loop fp m n gs (0 * n) 0 0 = Some (Inl Out_of_bounds)"
    by (subst group_loop.simps) simp
  then have "row_body fp n gs 0 m = Some (Inl Out_of_bounds)"
    by (simp add: row_body_def)
  with assms(2) have "row_loop fp n d gs 0 m = Some (Inl Out_of_bounds)"
    by (rule row_loop_first_fault)
  then have "kernel_entry r fp m n d gs = Some (Inl Out_of_bounds)"
    by (simp add: kernel_entry_def)
  with wrap show ?thesis
    by simp
qed

theorem group_bound_wraps_witness:
  "(0 :: uint64_t) < 1 \<and> length (xq_buf empty_row) = unat (0 :: uint64_t) \<and>
   unat (0 - 1 :: uint64_t) = 2 ^ 64 - 1 \<and>
   kernel_entry Host ieee_rne empty_row 0 1 1 = Some (Inl Out_of_bounds)"
proof -
  have a: "(0 :: uint64_t) < 1" and b: "length (xq_buf empty_row) = unat (0 :: uint64_t)"
    by (simp_all add: empty_row_def)
  show ?thesis
    using group_bound_wraps [OF a a b, of Host ieee_rne] a b by simp
qed

subsection \<open>Exactness of the integer accumulation\<close>

lemma sint_word_of_int_32: "fits_int32 v \<Longrightarrow> sint (word_of_int v :: int32_t) = v"
  by (simp add: fits_int32_def sint_sbintrunc' signed_take_bit_int_eq_self)

lemma abs_sum_bounded:
  fixes f :: "nat \<Rightarrow> int"
  assumes "\<And>k. k \<in> {a..<a + c} \<Longrightarrow> \<bar>f k\<bar> \<le> B"
  shows "\<bar>\<Sum>k = a..<a + c. f k\<bar> \<le> int c * B"
proof -
  have "\<bar>\<Sum>k = a..<a + c. f k\<bar> \<le> (\<Sum>k = a..<a + c. \<bar>f k\<bar>)"
    by (rule sum_abs)
  also have "\<dots> \<le> (\<Sum>k = a..<a + c. B)"
    using assms by (intro sum_mono) simp
  also have "\<dots> = int c * B"
    by simp
  finally show ?thesis .
qed

lemma abs_product_bounded:
  fixes a b :: int
  assumes "\<bar>a\<bar> \<le> A" "\<bar>b\<bar> \<le> A"
  shows "\<bar>a * b\<bar> \<le> A * A"
proof -
  have "\<bar>a\<bar> * \<bar>b\<bar> \<le> A * A"
    using assms by (intro mult_mono) auto
  then show ?thesis
    by (simp add: abs_mult)
qed

lemma group_dot_bounded:
  assumes xq: "\<forall>x \<in> set xq. \<bar>sint x\<bar> \<le> A"
    and wq: "\<forall>w \<in> set wq. \<bar>sint w\<bar> \<le> A"
    and len: "j + gs \<le> length xq" "base + j + gs \<le> length wq"
  shows "\<bar>group_dot xq wq base j gs\<bar> \<le> int gs * (A * A)"
  unfolding group_dot_def
proof (rule abs_sum_bounded)
  fix k assume "k \<in> {j..<j + gs}"
  then have "xq ! k \<in> set xq" "wq ! (base + k) \<in> set wq"
    using len by auto
  then show "\<bar>sint (xq ! k) * sint (wq ! (base + k))\<bar> \<le> A * A"
    using xq wq by (intro abs_product_bounded) auto
qed

text \<open>
  C7. If every element of \<open>xq\<close> and \<open>wq\<close> lies in \<open>[-127, 127]\<close> and
  \<open>gs * 127 * 127 < 2\<^sup>3\<^sup>1\<close>, then for every group that lies inside the buffers the
  inner loop returns, and the signed 32-bit accumulator \<open>ival\<close> it returns holds exactly the
  mathematical integer dot product of the group: no step of the accumulation wraps.
\<close>

theorem ival_exact:
  assumes xq: "\<forall>x \<in> set xq. - 127 \<le> sint x \<and> sint x \<le> 127"
    and wq: "\<forall>w \<in> set wq. - 127 \<le> sint w \<and> sint w \<le> 127"
    and gs: "unat gs * 127 * 127 < 2 ^ 31"
    and len: "unat j + unat gs \<le> length xq" "unat in' + unat j + unat gs \<le> length wq"
      "unat in' + unat j + unat gs < 2 ^ 64"
  shows "\<exists>ival. dot_loop xq wq in' (gs + j) j 0 = Inr ival \<and>
           sint ival = group_dot xq wq (unat in') (unat j) (unat gs)"
proof -
  have run: "dot_loop xq wq in' (gs + j) j 0 =
      Inr (word_of_int (group_dot xq wq (unat in') (unat j) (unat gs)))"
    using len by (rule dot_loop_group)
  have "\<forall>x \<in> set xq. \<bar>sint x\<bar> \<le> 127" "\<forall>w \<in> set wq. \<bar>sint w\<bar> \<le> 127"
    using xq wq by (auto simp: abs_le_iff)
  then have "\<bar>group_dot xq wq (unat in') (unat j) (unat gs)\<bar> \<le> int (unat gs) * (127 * 127)"
    using len by (intro group_dot_bounded) auto
  moreover have "int (unat gs) * (127 * 127) < 2 ^ 31"
  proof -
    have "unat gs * 16129 < 2147483648"
      using gs by simp
    then have "int (unat gs * 16129) < int 2147483648"
      by (simp only: of_nat_less_iff)
    then show ?thesis
      by simp
  qed
  ultimately have "fits_int32 (group_dot xq wq (unat in') (unat j) (unat gs))"
    unfolding fits_int32_def by linarith
  then have "sint (word_of_int (group_dot xq wq (unat in') (unat j) (unat gs)) :: int32_t) =
      group_dot xq wq (unat in') (unat j) (unat gs)"
    by (rule sint_word_of_int_32)
  with run show ?thesis
    by blast
qed

theorem ival_exact_witness:
  "list_all (\<lambda>x. - 127 \<le> sint x \<and> sint x \<le> 127) [1, 2, 3, 4 :: int8_t] \<and>
   list_all (\<lambda>w. - 127 \<le> sint w \<and> sint w \<le> 127) [1, 1, 1, 1 :: int8_t] \<and>
   unat (2 :: uint64_t) * 127 * 127 < 2 ^ 31 \<and>
   group_dot [1, 2, 3, 4] [1, 1, 1, 1] 0 2 2 = 7 \<and>
   (\<exists>ival. dot_loop [1, 2, 3, 4] [1, 1, 1, 1] 0 (2 + 2) 2 0 = Inr ival \<and> sint ival = 7)"
proof -
  have xq: "\<forall>x \<in> set [1, 2, 3, 4 :: int8_t]. - 127 \<le> sint x \<and> sint x \<le> 127"
    by simp
  have wq: "\<forall>w \<in> set [1, 1, 1, 1 :: int8_t]. - 127 \<le> sint w \<and> sint w \<le> 127"
    by simp
  have gs: "unat (2 :: uint64_t) * 127 * 127 < 2 ^ 31"
    by simp
  have dot: "group_dot [1, 2, 3, 4] [1, 1, 1, 1] 0 2 2 = 7"
    by (simp add: group_dot_def sum.atLeast_Suc_lessThan)
  show ?thesis
    using ival_exact [OF xq wq gs, of 2 0] dot by simp
qed

subsection \<open>Schedules of the rows\<close>

lemma two_rows_fit: "buffers_fit two_rows 2 2 2"
  by (simp add: buffers_fit_def two_rows_def)

lemma schedule_backwards: "schedule_of 2 [1, 0]"
proof -
  have "map of_nat [0..<unat (2 :: uint64_t)] = [0, 1 :: uint64_t]"
    by (simp add: upt_conv_Cons)
  then have "schedule_of 2 [0, 1]"
    using schedule_of_rows [of 2] by simp
  then show ?thesis
    by (auto simp: schedule_of_def)
qed

lemma row_fold_inputs:
  assumes "xq_buf m0 = xq_buf m" "xs_buf m0 = xs_buf m" "wq_buf m0 = wq_buf m"
    "ws_buf m0 = ws_buf m"
  shows "row_fold fp m0 = row_fold fp m"
proof -
  have groups: "fold_group fp m0 = fold_group fp m"
    by (simp add: fold_group_def fun_eq_iff assms)
  show ?thesis
    by (intro ext) (simp only: row_fold_def groups)
qed

text \<open>
  C9. The kernel is a function of its inputs. Take two invocations with the same \<open>xq\<close>,
  \<open>xs\<close>, \<open>wq\<close>, \<open>ws\<close>, \<open>n\<close>, \<open>d\<close> and \<open>gs\<close> (\<open>1 \<le> gs \<le> n\<close>, buffers that fit), one running
  the rows in the order of the sequential loop and the other under any schedule of the
  rows (any order in which the parallel loop lets the \<open>d\<close> rows take effect, each row
  once), whatever the \<open>xout\<close> buffers held before: both return normally with the same \<open>d\<close>
  entries of \<open>xout\<close>, and each leaves the rest of its buffer as it was.
\<close>

theorem schedule_independent:
  assumes gs: "1 \<le> unat gs" "unat gs \<le> unat n"
    and fit: "buffers_fit m n d gs" "buffers_fit m0 n d gs"
    and same: "xq_buf m0 = xq_buf m" "xs_buf m0 = xs_buf m" "wq_buf m0 = wq_buf m"
      "ws_buf m0 = ws_buf m"
    and sched: "schedule_of d sched"
  shows "\<exists>m1 m2. kernel_entry r fp m n d gs = Some (Inr m1) \<and>
    kernel_entry_omp sched r fp m0 n d gs = Some (Inr m2) \<and>
    take (unat d) (xout_buf m2) = take (unat d) (xout_buf m1) \<and>
    drop (unat d) (xout_buf m1) = drop (unat d) (xout_buf m) \<and>
    drop (unat d) (xout_buf m2) = drop (unat d) (xout_buf m0)"
proof -
  have run: "kernel_entry r fp m n d gs = Some (Inr (leave r (halt r (m\<lparr>
      xout_buf := xout_after fp m (unat n) (unat d) (unat gs),
      trace := trace m @ row_stores fp m (unat n) (unat d) (unat gs)\<rparr>))))"
    using gs fit(1) by (intro kernel_entry_run) auto
  have run0: "kernel_entry_omp sched r fp m0 n d gs = Some (Inr (leave r (halt r (m0\<lparr>
      xout_buf := xout_after fp m0 (unat n) (unat d) (unat gs),
      trace := trace m0 @
        map (\<lambda>i. Store_xout i (row_fold fp m0 (unat n) (unat gs) (unat i))) sched\<rparr>))))"
    using gs fit(2) sched by (intro kernel_entry_omp_run) auto
  have "take (unat d) (xout_after fp m0 (unat n) (unat d) (unat gs)) =
      take (unat d) (xout_after fp m (unat n) (unat d) (unat gs))"
    by (simp add: xout_after_def row_fold_inputs [OF same])
  moreover have "drop (unat d) (xout_after fp m (unat n) (unat d) (unat gs)) =
      drop (unat d) (xout_buf m)"
    "drop (unat d) (xout_after fp m0 (unat n) (unat d) (unat gs)) = drop (unat d) (xout_buf m0)"
    by (simp_all add: xout_after_def)
  ultimately show ?thesis
    by (simp add: run run0)
qed

theorem schedule_independent_witness:
  "1 \<le> unat (2 :: uint64_t) \<and> unat (2 :: uint64_t) \<le> unat (2 :: uint64_t) \<and>
   buffers_fit two_rows 2 2 2 \<and> schedule_of 2 [1, 0] \<and>
   (\<exists>m1 m2. kernel_entry Host ieee_rne two_rows 2 2 2 = Some (Inr m1) \<and>
      kernel_entry_omp [1, 0] Host ieee_rne
        (two_rows\<lparr>xout_buf := [0x3F800000, 0x40400000]\<rparr>) 2 2 2 = Some (Inr m2) \<and>
      take 2 (xout_buf m2) = take 2 (xout_buf m1))"
proof -
  have gs: "1 \<le> unat (2 :: uint64_t)" "unat (2 :: uint64_t) \<le> unat (2 :: uint64_t)"
    by simp_all
  have fit0: "buffers_fit (two_rows\<lparr>xout_buf := [0x3F800000, 0x40400000]\<rparr>) 2 2 2"
    by (simp add: buffers_fit_def two_rows_def)
  show ?thesis
    using schedule_independent [OF gs two_rows_fit fit0 _ _ _ _ schedule_backwards,
        of Host ieee_rne]
      two_rows_fit schedule_backwards
    by auto
qed

subsection \<open>The events of any run that returns\<close>








subsection \<open>The buffers after any run that returns\<close>








subsection \<open>The fold over the groups of a row\<close>

lemma group_dot_replicate:
  assumes "j + gs \<le> a" "base + j + gs \<le> b"
  shows "group_dot (replicate a x) (replicate b w) base j gs = int gs * (sint x * sint w)"
proof -
  have "group_dot (replicate a x) (replicate b w) base j gs = (\<Sum>k = j..<j + gs. sint x * sint w)"
    unfolding group_dot_def using assms by (intro sum.cong refl) simp
  then show ?thesis
    by simp
qed

lemma big_group_dot:
  "group_dot (replicate 262144 (127 :: int8_t)) (replicate 262144 (127 :: int8_t)) 0 0 262144 =
    4228120576"
  by (subst group_dot_replicate) simp_all

lemma big_group_ival:
  "dot_loop (replicate 262144 127) (replicate 262144 127) 0 (262144 + 0) 0 0 =
    Inr (- 66846720)"
  using dot_loop_group [of 0 262144 "replicate 262144 127" 0 "replicate 262144 127"]
  by (simp add: big_group_dot)

lemma cvt_wrapped: "ieee_cvt_i_f (- 66846720) = 0xCC7F0000"
  by code_simp

lemma fma_wrapped: "ieee_fma 0xCC7F0000 0x3F800000 0 = 0xCC7F0000"
  by code_simp

lemma big_group_fold: "row_fold ieee_rne big_group 262144 262144 0 = 0xCC7F0000"
proof -
  have offsets: "group_offsets 262144 262144 = [0]"
    by (simp add: group_offsets_def)
  have "word_of_int (group_dot (xq_buf big_group) (wq_buf big_group) 0 0 262144) =
      (- 66846720 :: int32_t)"
    by (simp add: big_group_def big_group_dot)
  then have "fold_group ieee_rne big_group 262144 262144 0 0 0 = 0xCC7F0000"
    by (simp add: fold_group_def ieee_rne_def cvt_wrapped)
      (simp add: big_group_def mul_one_one fma_wrapped)
  then show ?thesis
    by (simp add: row_fold_def offsets)
qed

lemma big_group_run:
  "kernel_entry Host ieee_rne big_group 262144 1 262144 =
     Some (Inr (big_group\<lparr>xout_buf := [0xCC7F0000],
                           trace := [Store_xout 0 0xCC7F0000, Return]\<rparr>))"
proof -
  have fit: "buffers_fit big_group 262144 1 262144"
    by (simp add: buffers_fit_def big_group_def)
  have n: "unat (262144 :: uint64_t) = 262144" and d: "unat (1 :: uint64_t) = Suc 0"
    by simp_all
  have out: "xout_after ieee_rne big_group 262144 (Suc 0) 262144 = [0xCC7F0000]"
    by (simp add: xout_after_def big_group_fold) (simp add: big_group_def)
  have stores: "trace big_group @ row_stores ieee_rne big_group 262144 (Suc 0) 262144 =
      [Store_xout 0 0xCC7F0000]"
    by (simp add: row_stores_def big_group_fold) (simp add: big_group_def)
  have "kernel_entry Host ieee_rne big_group 262144 1 262144 =
      Some (Inr (leave Host (halt Host (big_group\<lparr>xout_buf := [0xCC7F0000],
        trace := [Store_xout 0 0xCC7F0000]\<rparr>))))"
    using kernel_entry_run [of 262144 262144 big_group 1 Host ieee_rne, OF _ _ fit]
    by (simp only: n d out stores)
  then show ?thesis
    by simp
qed

lemma group_offsets_increasing:
  assumes "0 < gs"
  shows "sorted_wrt (<) (group_offsets n gs)"
proof -
  have "sorted_wrt (\<lambda>x y. x * gs < y * gs) [0..<n div gs]"
    using assms by (intro sorted_wrt_mono_rel [OF _ sorted_wrt_upt]) simp
  then show ?thesis
    by (simp add: group_offsets_def sorted_wrt_map)
qed

lemma group_offsets_last:
  assumes "0 < gs" "gs \<le> n" "gs dvd n"
  shows "group_offsets n gs \<noteq> []" "hd (group_offsets n gs) = 0"
    "last (group_offsets n gs) = n - gs"
proof -
  have pos: "0 < n div gs"
    using assms(1,2) by (simp add: div_greater_zero_iff)
  then show "group_offsets n gs \<noteq> []"
    by (simp add: group_offsets_def)
  show "hd (group_offsets n gs) = 0"
    using pos by (simp add: group_offsets_def hd_map upt_conv_Cons)
  have "last (group_offsets n gs) = (n div gs - 1) * gs"
    using pos by (simp add: group_offsets_def last_map)
  also have "\<dots> = (n div gs) * gs - gs"
    by (simp add: diff_mult_distrib)
  also have "\<dots> = n - gs"
    using assms(3) by simp
  finally show "last (group_offsets n gs) = n - gs" .
qed

text \<open>
  C1, as stated, fails: nothing in its preconditions keeps the 32-bit accumulator from
  wrapping. With \<open>n = gs = 262144\<close>, \<open>d = 1\<close>, every element of \<open>xq\<close> and \<open>wq\<close> equal to
  \<open>127\<close> and both scales \<open>1.0\<close>, the exact dot product of the only group is
  \<open>262144 * 127 * 127 = 4228120576\<close>, which is no \<^verbatim>\<open>int32_t\<close> value; the accumulator
  ends as \<open>-66846720\<close> and \<open>xout[0]\<close> is \<open>-66846720.0\<close> (bits \<^verbatim>\<open>0xCC7F0000\<close>), although
  every product is positive.
\<close>

theorem fold_ival_counterexample:
  "buffers_fit big_group 262144 1 262144 \<and>
   unat (262144 :: uint64_t) dvd unat (262144 :: uint64_t) \<and>
   group_dot (xq_buf big_group) (wq_buf big_group) 0 0 262144 = 4228120576 \<and>
   \<not> fits_int32 4228120576 \<and>
   dot_loop (xq_buf big_group) (wq_buf big_group) 0 (262144 + 0) 0 0 = Inr (- 66846720) \<and>
   sint (- 66846720 :: int32_t) = - 66846720 \<and>
   kernel_entry Host ieee_rne big_group 262144 1 262144 =
     Some (Inr (big_group\<lparr>xout_buf := [0xCC7F0000],
                           trace := [Store_xout 0 0xCC7F0000, Return]\<rparr>))"
proof -
  have "buffers_fit big_group 262144 1 262144"
    by (simp add: buffers_fit_def big_group_def)
  moreover have "group_dot (xq_buf big_group) (wq_buf big_group) 0 0 262144 = 4228120576"
    by (simp add: big_group_def big_group_dot)
  moreover have "\<not> fits_int32 4228120576"
    by (simp add: fits_int32_def)
  moreover have "dot_loop (xq_buf big_group) (wq_buf big_group) 0 (262144 + 0) 0 0 =
      Inr (- 66846720)"
    using big_group_ival by (simp add: big_group_def)
  ultimately show ?thesis
    using big_group_run by simp
qed

text \<open>
  C1, amended. For \<open>gs \<ge> 1\<close>, \<open>gs\<close> dividing \<open>n\<close>, \<open>n \<ge> gs\<close>, \<open>d \<ge> 1\<close>, buffers that fit, and
  provided the exact integer dot product of every group fits in a signed 32-bit integer,
  the kernel returns normally and every \<open>xout[i]\<close> with \<open>i < d\<close> is the left fold, starting
  from \<open>+0.0\<close> (bits 0), over the group offsets \<open>0, gs, 2 * gs, \<dots>, n - gs\<close> in increasing
  order, of \<open>acc := f32_fma (i32_to_f32 ival\<^sub>j) (f32_mul xs[j / gs] ws[(i * n + j) / gs]) acc\<close>,
  where the 32-bit integer \<open>ival\<^sub>j\<close> has exactly the value of the integer dot product of
  the group. The scale product is an argument of the fused multiply-add, so it is formed
  before it.
\<close>

theorem rows_fold_in_order:
  assumes gs: "1 \<le> unat gs" "unat gs dvd unat n" "unat gs \<le> unat n"
    and d: "1 \<le> unat d"
    and fit: "buffers_fit m n d gs"
    and exact: "\<forall>i < unat d. \<forall>j \<in> set (group_offsets (unat n) (unat gs)).
      fits_int32 (group_dot (xq_buf m) (wq_buf m) (i * unat n) j (unat gs))"
  shows "\<exists>m'. kernel_entry r fp m n d gs = Some (Inr m') \<and>
    (\<forall>i < unat d.
       xout_buf m' ! i =
         foldl (\<lambda>acc j.
             f32_fma fp
               (i32_to_f32 fp
                 (word_of_int (group_dot (xq_buf m) (wq_buf m) (i * unat n) j (unat gs))))
               (f32_mul fp (xs_buf m ! (j div unat gs)) (ws_buf m ! ((i * unat n + j) div unat gs)))
               acc)
           0 (group_offsets (unat n) (unat gs)) \<and>
       (\<forall>j \<in> set (group_offsets (unat n) (unat gs)).
          sint (word_of_int (group_dot (xq_buf m) (wq_buf m) (i * unat n) j (unat gs)) :: int32_t) =
          group_dot (xq_buf m) (wq_buf m) (i * unat n) j (unat gs))) \<and>
    sorted_wrt (<) (group_offsets (unat n) (unat gs)) \<and>
    hd (group_offsets (unat n) (unat gs)) = 0 \<and>
    last (group_offsets (unat n) (unat gs)) = unat n - unat gs"
proof -
  have run: "kernel_entry r fp m n d gs = Some (Inr (leave r (halt r (m\<lparr>
      xout_buf := xout_after fp m (unat n) (unat d) (unat gs),
      trace := trace m @ row_stores fp m (unat n) (unat d) (unat gs)\<rparr>))))"
    using gs fit by (intro kernel_entry_run) auto
  have fold: "row_fold fp m (unat n) (unat gs) i =
      foldl (\<lambda>acc j.
          f32_fma fp
            (i32_to_f32 fp
              (word_of_int (group_dot (xq_buf m) (wq_buf m) (i * unat n) j (unat gs))))
            (f32_mul fp (xs_buf m ! (j div unat gs)) (ws_buf m ! ((i * unat n + j) div unat gs)))
            acc)
        0 (group_offsets (unat n) (unat gs))" for i
    unfolding row_fold_def by (rule foldl_cong) (simp_all add: fold_group_def)
  have order: "sorted_wrt (<) (group_offsets (unat n) (unat gs))"
    "hd (group_offsets (unat n) (unat gs)) = 0"
    "last (group_offsets (unat n) (unat gs)) = unat n - unat gs"
    using gs by (simp_all add: group_offsets_increasing group_offsets_last)
  show ?thesis
    using exact order by (simp add: run nth_xout_after fold sint_word_of_int_32)
qed

theorem rows_fold_in_order_witness:
  "1 \<le> unat (2 :: uint64_t) \<and> unat (2 :: uint64_t) dvd unat (4 :: uint64_t) \<and>
   unat (2 :: uint64_t) \<le> unat (4 :: uint64_t) \<and> 1 \<le> unat (1 :: uint64_t) \<and>
   buffers_fit scenario 4 1 2 \<and> group_offsets 4 2 = [0, 2] \<and>
   fits_int32 (group_dot (xq_buf scenario) (wq_buf scenario) 0 0 2) \<and>
   fits_int32 (group_dot (xq_buf scenario) (wq_buf scenario) 0 2 2) \<and>
   (\<exists>m'. kernel_entry Guest ieee_rne scenario 4 1 2 = Some (Inr m') \<and>
      xout_buf m' ! 0 =
        ieee_fma (ieee_cvt_i_f 7) (ieee_mul 0x3F800000 0x3F800000)
          (ieee_fma (ieee_cvt_i_f 3) (ieee_mul 0x3F800000 0x3F800000) 0))"
proof -
  have gs: "1 \<le> unat (2 :: uint64_t)" "unat (2 :: uint64_t) dvd unat (4 :: uint64_t)"
    "unat (2 :: uint64_t) \<le> unat (4 :: uint64_t)" and d: "1 \<le> unat (1 :: uint64_t)"
    by simp_all
  have offsets: "group_offsets 4 2 = [0, 2]"
    by (simp add: group_offsets_def upt_conv_Cons)
  have fits: "fits_int32 (group_dot (xq_buf scenario) (wq_buf scenario) 0 0 2)"
    "fits_int32 (group_dot (xq_buf scenario) (wq_buf scenario) 0 2 2)"
    by (simp_all add: scenario_dots fits_int32_def)
  have exact: "\<forall>i < unat (1 :: uint64_t).
      \<forall>j \<in> set (group_offsets (unat (4 :: uint64_t)) (unat (2 :: uint64_t))).
        fits_int32 (group_dot (xq_buf scenario) (wq_buf scenario) (i * unat (4 :: uint64_t)) j
          (unat (2 :: uint64_t)))"
    using fits by (simp add: offsets)
  show ?thesis
    using rows_fold_in_order [OF gs d scenario_fit exact, of Guest ieee_rne]
      gs d scenario_fit offsets fits scenario_dots
    by (auto simp: ieee_rne_def scenario_def)
qed

subsection \<open>An input vector of zeros\<close>

lemma cvt_zero: "ieee_cvt_i_f 0 = 0"
  by (simp add: ieee_cvt_i_f_def f32_round_pack_def f32_sign_def)

lemma classify_zero: "f32_classify 0 = Finite False 0 (- 149)"
  by (simp add: f32_classify_def)

lemma classify_finite:
  "f32_is_finite p \<Longrightarrow> \<exists>s m e. f32_classify p = Finite s m e"
  by (simp add: f32_classify_def f32_is_finite_def Let_def)

lemma fma_zero_finite:
  assumes "f32_is_finite p"
  shows "ieee_fma 0 p 0 = 0"
proof -
  obtain s m e where "f32_classify p = Finite s m e"
    using classify_finite [OF assms] by blast
  then show ?thesis
    by (simp add: ieee_fma_def classify_zero signed_value_def f32_round_pack_def f32_sign_def)
qed

lemma foldl_stays:
  "(\<And>j. j \<in> set js \<Longrightarrow> f z j = z) \<Longrightarrow> foldl f z js = z"
  by (induction js) simp_all

lemma group_dot_zero:
  assumes "\<forall>x \<in> set xq. x = 0" "j + gs \<le> length xq"
  shows "group_dot xq wq base j gs = 0"
  unfolding group_dot_def
proof (rule sum.neutral, rule ballI)
  fix k assume "k \<in> {j..<j + gs}"
  then have "xq ! k \<in> set xq"
    using assms(2) by simp
  then have "xq ! k = 0"
    using assms(1) by simp
  then show "sint (xq ! k) * sint (wq ! (base + k)) = 0"
    by simp
qed

lemma group_offsets_within:
  assumes "j \<in> set (group_offsets n gs)"
  shows "j + gs \<le> n"
proof -
  obtain g where g: "g < n div gs" "j = g * gs"
    using assms by (auto simp: group_offsets_def)
  have "Suc g * gs \<le> (n div gs) * gs"
    using g(1) by (intro mult_le_mono1) simp
  also have "\<dots> \<le> n"
    by simp
  finally show ?thesis
    using g(2) by (simp add: add.commute)
qed

lemma inf_times_one: "ieee_mul 0x7F800000 0x3F800000 = 0x7F800000"
  by code_simp

lemma large_times_large: "ieee_mul 0x7F7FFFFF 0x7F7FFFFF = 0x7F800000"
  by code_simp

lemma fma_zero_inf: "ieee_fma 0 0x7F800000 0 = 0x7FC00000"
  by code_simp

lemma one_group_run:
  assumes m: "xq_buf m = [0]" "wq_buf m = [1]" "xs_buf m = [a]" "ws_buf m = [b]"
    "xout_buf m = [0]" "trace m = []"
    and nan: "ieee_fma 0 (ieee_mul a b) 0 = v"
  shows "kernel_entry Host ieee_rne m 1 1 1 =
    Some (Inr (m\<lparr>xout_buf := [v], trace := [Store_xout 0 v, Return]\<rparr>))"
proof -
  have fit: "buffers_fit m 1 1 1"
    by (simp add: buffers_fit_def m)
  have "group_dot [0] [1] 0 0 (Suc 0) = 0"
    by (simp add: group_dot_def)
  then have fold: "row_fold ieee_rne m (Suc 0) (Suc 0) 0 = v"
    by (simp add: row_fold_def group_offsets_def fold_group_def m ieee_rne_def cvt_zero nan)
  have "kernel_entry Host ieee_rne m 1 1 1 =
      Some (Inr (leave Host (halt Host (m\<lparr>xout_buf := xout_after ieee_rne m 1 1 1,
        trace := trace m @ row_stores ieee_rne m 1 1 1\<rparr>))))"
    using kernel_entry_run [of 1 1 m 1 Host ieee_rne, OF _ _ fit] by simp
  then show ?thesis
    by (simp add: xout_after_def row_stores_def fold m)
qed

text \<open>
  C4, as stated, fails. With \<open>n = d = gs = 1\<close>, \<open>xq = [0]\<close> and the scales \<open>xs = [+\<infinity>]\<close>,
  \<open>ws = [1.0]\<close>, the scale product is \<open>+\<infinity>\<close> and the fused multiply-add of \<open>0 * \<infinity> + 0\<close> is
  invalid: \<open>xout[0]\<close> is a NaN (bits \<^verbatim>\<open>0x7FC00000\<close>). The same happens with the two finite
  scales \<^verbatim>\<open>0x7F7FFFFF\<close>, whose product overflows to \<open>+\<infinity>\<close>.
\<close>

theorem zero_input_counterexample:
  "xq_buf zero_times_inf = [0] \<and>
   kernel_entry Host ieee_rne zero_times_inf 1 1 1 =
     Some (Inr (zero_times_inf\<lparr>xout_buf := [0x7FC00000],
                                trace := [Store_xout 0 0x7FC00000, Return]\<rparr>)) \<and>
   xq_buf zero_times_large = [0] \<and>
   kernel_entry Host ieee_rne zero_times_large 1 1 1 =
     Some (Inr (zero_times_large\<lparr>xout_buf := [0x7FC00000],
                                  trace := [Store_xout 0 0x7FC00000, Return]\<rparr>)) \<and>
   f32_classify 0x7FC00000 = NaN"
proof -
  have "kernel_entry Host ieee_rne zero_times_inf 1 1 1 =
      Some (Inr (zero_times_inf\<lparr>xout_buf := [0x7FC00000],
        trace := [Store_xout 0 0x7FC00000, Return]\<rparr>))"
    by (rule one_group_run [where a = "0x7F800000" and b = "0x3F800000"])
      (simp_all add: zero_times_inf_def inf_times_one fma_zero_inf)
  moreover have "kernel_entry Host ieee_rne zero_times_large 1 1 1 =
      Some (Inr (zero_times_large\<lparr>xout_buf := [0x7FC00000],
        trace := [Store_xout 0 0x7FC00000, Return]\<rparr>))"
    by (rule one_group_run [where a = "0x7F7FFFFF" and b = "0x7F7FFFFF"])
      (simp_all add: zero_times_large_def large_times_large fma_zero_inf)
  moreover have "f32_classify 0x7FC00000 = NaN"
    by (simp add: f32_classify_def)
  ultimately show ?thesis
    by (simp add: zero_times_inf_def zero_times_large_def)
qed

text \<open>
  C4, amended. For \<open>1 \<le> gs \<le> n\<close> and buffers that fit, if every element of \<open>xq\<close> is zero
  and every product of scales \<open>xs[j / gs] * ws[(i * n + j) / gs]\<close> that the kernel forms is
  finite (neither an infinity nor a NaN), then the kernel returns normally and every
  \<open>xout[i]\<close> with \<open>i < d\<close> is \<open>+0.0\<close> (bits 0), whatever \<open>wq\<close> holds.
\<close>

theorem zero_input_zero_output:
  assumes gs: "1 \<le> unat gs" "unat gs \<le> unat n"
    and fit: "buffers_fit m n d gs"
    and zero: "\<forall>x \<in> set (xq_buf m). x = 0"
    and finite: "\<forall>i < unat d. \<forall>j \<in> set (group_offsets (unat n) (unat gs)).
      f32_is_finite
        (ieee_mul (xs_buf m ! (j div unat gs)) (ws_buf m ! ((i * unat n + j) div unat gs)))"
  shows "\<exists>m'. kernel_entry r ieee_rne m n d gs = Some (Inr m') \<and>
    (\<forall>i < unat d. xout_buf m' ! i = 0)"
proof -
  have run: "kernel_entry r ieee_rne m n d gs = Some (Inr (leave r (halt r (m\<lparr>
      xout_buf := xout_after ieee_rne m (unat n) (unat d) (unat gs),
      trace := trace m @ row_stores ieee_rne m (unat n) (unat d) (unat gs)\<rparr>))))"
    using gs fit by (intro kernel_entry_run) auto
  have len: "unat n \<le> length (xq_buf m)"
    using fit by (simp add: buffers_fit_def)
  have "row_fold ieee_rne m (unat n) (unat gs) i = 0" if i: "i < unat d" for i
    unfolding row_fold_def
  proof (rule foldl_stays)
    fix j assume j: "j \<in> set (group_offsets (unat n) (unat gs))"
    then have "j + unat gs \<le> length (xq_buf m)"
      using len group_offsets_within [of j "unat n" "unat gs"] by simp
    with zero have dot: "group_dot (xq_buf m) (wq_buf m) (i * unat n) j (unat gs) = 0"
      by (rule group_dot_zero)
    have "f32_is_finite
        (ieee_mul (xs_buf m ! (j div unat gs)) (ws_buf m ! ((i * unat n + j) div unat gs)))"
      using finite i j by simp
    then show "fold_group ieee_rne m (unat n) (unat gs) i 0 j = 0"
      by (simp add: fold_group_def ieee_rne_def dot cvt_zero fma_zero_finite)
  qed
  then show ?thesis
    by (simp add: run nth_xout_after)
qed

theorem zero_input_zero_output_witness:
  "1 \<le> unat (2 :: uint64_t) \<and> unat (2 :: uint64_t) \<le> unat (2 :: uint64_t) \<and>
   buffers_fit zero_row 2 1 2 \<and> list_all (\<lambda>x. x = 0) (xq_buf zero_row) \<and>
   f32_is_finite (ieee_mul 0x3F800000 0x00000001) \<and> xout_buf zero_row = [0x3F800000] \<and>
   (\<exists>m'. kernel_entry Host ieee_rne zero_row 2 1 2 = Some (Inr m') \<and> xout_buf m' ! 0 = 0)"
proof -
  have gs: "1 \<le> unat (2 :: uint64_t)" "unat (2 :: uint64_t) \<le> unat (2 :: uint64_t)"
    by simp_all
  have fit: "buffers_fit zero_row 2 1 2"
    by (simp add: buffers_fit_def zero_row_def)
  have zero: "\<forall>x \<in> set (xq_buf zero_row). x = 0"
    by (simp add: zero_row_def)
  have fin: "f32_is_finite (ieee_mul 0x3F800000 0x00000001)"
    by code_simp
  have finite: "\<forall>i < unat (1 :: uint64_t).
      \<forall>j \<in> set (group_offsets (unat (2 :: uint64_t)) (unat (2 :: uint64_t))).
        f32_is_finite
          (ieee_mul (xs_buf zero_row ! (j div unat (2 :: uint64_t)))
            (ws_buf zero_row ! ((i * unat (2 :: uint64_t) + j) div unat (2 :: uint64_t))))"
    using fin by (simp add: group_offsets_def zero_row_def)
  show ?thesis
    using zero_input_zero_output [OF gs fit zero finite, of Host] gs fit fin
    by (auto simp: zero_row_def)
qed

end
